(* ===== verification/Prelude.thy ===== *)
theory Prelude
  imports Main "HOL-Library.Word" "HOL-Library.Multiset"
begin

text \<open>
  The shared vocabulary of the development: the arithmetic of the 64-bit type \<open>size_t\<close>,
  byte buffers with \<open>memcpy\<close>/\<open>memmove\<close>, decimal printing (\<open>std::to_string\<close>), C++
  exceptions as values, and programs that pass a state and may throw. The collections
  \<open>prog_simps\<close> (evaluation of programs), \<open>usz_simps\<close> (sizes that do not wrap) and
  \<open>buf_simps\<close> (buffers) carry the component proofs.
\<close>

named_theorems prog_simps \<open>evaluation of programs that pass a state and may throw\<close>
named_theorems usz_simps \<open>size_t arithmetic inside the range\<close>
named_theorems buf_simps \<open>byte buffers\<close>
named_theorems keeps_intros \<open>programs that keep an invariant of the state\<close>
named_theorems safe_intros \<open>programs that keep an invariant and have defined behaviour under it\<close>

section \<open>The 64-bit size type\<close>

text \<open>
  \<open>size_t\<close> values are natural numbers below $2^{64}$; the operations write the
  wrap-around out.
\<close>

type_synonym size_t = nat

definition usz_add :: "size_t \<Rightarrow> size_t \<Rightarrow> size_t" where
  "usz_add a b = (a + b) mod 2 ^ 64"

definition usz_sub :: "size_t \<Rightarrow> size_t \<Rightarrow> size_t" where
  "usz_sub a b = (a + (2 ^ 64 - b mod 2 ^ 64)) mod 2 ^ 64"

definition usz_mul :: "size_t \<Rightarrow> size_t \<Rightarrow> size_t" where
  "usz_mul a b = (a * b) mod 2 ^ 64"

section \<open>Byte buffers\<close>

type_synonym byte = "8 word"

text \<open>
  \<open>blit dst off src\<close> is \<open>memcpy(dst + off, src, len)\<close> for a source of \<open>len\<close> bytes that
  fits; \<open>shift_down dst k n\<close> is \<open>memmove(dst, dst + k, n)\<close>.
\<close>

definition blit :: "'a list \<Rightarrow> nat \<Rightarrow> 'a list \<Rightarrow> 'a list" where
  "blit dst off src = take off dst @ src @ drop (off + length src) dst"

definition shift_down :: "'a list \<Rightarrow> nat \<Rightarrow> nat \<Rightarrow> 'a list" where
  "shift_down dst k n = blit dst 0 (take n (drop k dst))"

text \<open>\<open>std::vector<char>::resize\<close>: truncation, or new elements that are zero.\<close>

definition vec_resize :: "byte list \<Rightarrow> nat \<Rightarrow> byte list" where
  "vec_resize v n = take n v @ replicate (n - length v) 0"

section \<open>Decimal numbers\<close>

definition digit_char :: "nat \<Rightarrow> char" where
  "digit_char d = char_of (48 + d)"

fun nat_to_string :: "nat \<Rightarrow> string" where
  "nat_to_string n =
     (if n < 10 then [digit_char n] else nat_to_string (n div 10) @ [digit_char (n mod 10)])"

declare nat_to_string.simps [simp del]

definition to_string :: "int \<Rightarrow> string" where
  "to_string i = (if i < 0 then ''-'' @ nat_to_string (nat (- i)) else nat_to_string (nat i))"

section \<open>Exceptions and programs\<close>

text \<open>
  A C++ exception carries its message. \<open>Undefined_behaviour\<close> is no exception of the
  language: it marks the use of a null or dangling pointer, an index outside of a vector and
  an access outside of an array, so that a theorem that excludes it says that the code does
  not reach one. \<open>Diverges\<close> marks that a loop did not
  end within the number of rounds given to its model; theorems on such loops state how many
  rounds are enough.
\<close>

datatype exn =
    Runtime_error string
  | Invalid_argument string
  | Out_of_range string
  | Length_error
  | Bad_alloc
  | Undefined_behaviour string
  | Diverges

type_synonym ('s, 'a) prog = "'s \<Rightarrow> (exn + 'a) \<times> 's"

definition ret :: "'a \<Rightarrow> ('s, 'a) prog" where
  "ret a = (\<lambda>s. (Inr a, s))"

definition throw :: "exn \<Rightarrow> ('s, 'a) prog" where
  "throw e = (\<lambda>s. (Inl e, s))"

definition bnd :: "('s, 'a) prog \<Rightarrow> ('a \<Rightarrow> ('s, 'b) prog) \<Rightarrow> ('s, 'b) prog" where
  "bnd m f = (\<lambda>s. case m s of (Inl e, s') \<Rightarrow> (Inl e, s') | (Inr a, s') \<Rightarrow> f a s')"

definition andthen :: "('s, unit) prog \<Rightarrow> ('s, 'b) prog \<Rightarrow> ('s, 'b) prog" where
  "andthen m k = bnd m (\<lambda>_. k)"

definition gets :: "('s \<Rightarrow> 'a) \<Rightarrow> ('s, 'a) prog" where
  "gets f = (\<lambda>s. (Inr (f s), s))"

definition modify :: "('s \<Rightarrow> 's) \<Rightarrow> ('s, unit) prog" where
  "modify f = (\<lambda>s. (Inr (), f s))"

text \<open>
  \<open>guard b what\<close> stands before an access to memory: when \<open>b\<close> does not hold, the access is
  outside of its array, and the behaviour is undefined.
\<close>

definition guard :: "bool \<Rightarrow> string \<Rightarrow> ('s, unit) prog" where
  "guard b what = (if b then ret () else throw (Undefined_behaviour what))"

definition doif :: "bool \<Rightarrow> ('s, unit) prog \<Rightarrow> ('s, unit) prog" where
  "doif b m = (if b then m else ret ())"

text \<open>
  \<open>on_throw m h\<close> runs the destructors \<open>h\<close> of the locals of \<open>m\<close> when \<open>m\<close> throws, and
  passes the exception on. \<open>on_fst\<close> and \<open>on_snd\<close> run a program on one half of a pair: a
  method of an object is a program over the object and the rest of the state.
\<close>

definition on_throw :: "('s, 'a) prog \<Rightarrow> ('s \<Rightarrow> 's) \<Rightarrow> ('s, 'a) prog" where
  "on_throw m h = (\<lambda>s. case m s of (Inl e, s') \<Rightarrow> (Inl e, h s') | (Inr a, s') \<Rightarrow> (Inr a, s'))"

definition on_snd :: "('w, 'a) prog \<Rightarrow> ('o \<times> 'w, 'a) prog" where
  "on_snd m = (\<lambda>(ob, w). case m w of (r, w') \<Rightarrow> (r, (ob, w')))"

section \<open>Shared lemmas\<close>

lemma usz_bounds [simp]: "usz_add a b < 2 ^ 64" "usz_sub a b < 2 ^ 64" "usz_mul a b < 2 ^ 64"
  by (simp_all add: usz_add_def usz_sub_def usz_mul_def)

lemma usz_add_eq [usz_simps]: "a + b < 2 ^ 64 \<Longrightarrow> usz_add a b = a + b"
  by (simp add: usz_add_def)

lemma usz_mul_eq [usz_simps]: "a * b < 2 ^ 64 \<Longrightarrow> usz_mul a b = a * b"
  by (simp add: usz_mul_def)

lemma usz_sub_eq [usz_simps]:
  assumes "b \<le> a" "a < 2 ^ 64"
  shows "usz_sub a b = a - b"
proof -
  have eq: "a + (2 ^ 64 - b mod 2 ^ 64) = (a - b) + 2 ^ 64"
    using assms by simp
  show ?thesis
    unfolding usz_sub_def eq using assms by (metis less_imp_diff_less mod_add_self2 mod_less)
qed

text \<open>An unsigned subtraction below zero wraps.\<close>

lemma usz_sub_wraps:
  assumes "a < b" "b < 2 ^ 64"
  shows "usz_sub a b = 2 ^ 64 - (b - a)"
  using assms by (simp add: usz_sub_def)

lemma length_blit [buf_simps]: "off + length src \<le> length dst \<Longrightarrow> length (blit dst off src) = length dst"
  by (simp add: blit_def)

lemma take_blit [buf_simps]:
  "off + length src \<le> length dst \<Longrightarrow> take (off + length src) (blit dst off src) = take off dst @ src"
  by (simp add: blit_def)

lemma length_shift_down [buf_simps]: "k + n \<le> length dst \<Longrightarrow> length (shift_down dst k n) = length dst"
  by (simp add: shift_down_def length_blit)

lemma take_shift_down [buf_simps]:
  "k + n \<le> length dst \<Longrightarrow> take n (shift_down dst k n) = take n (drop k dst)"
  by (simp add: shift_down_def blit_def)

lemma length_vec_resize [buf_simps]: "length (vec_resize v n) = n"
  by (simp add: vec_resize_def)

lemma take_vec_resize [buf_simps]:
  "k \<le> length v \<Longrightarrow> k \<le> n \<Longrightarrow> take k (vec_resize v n) = take k v"
  by (simp add: vec_resize_def)

lemma vec_resize_same [simp]: "vec_resize v (length v) = v"
  by (simp add: vec_resize_def)

lemma ret_eval [prog_simps]: "ret a s = (Inr a, s)"
  by (simp add: ret_def)

lemma throw_eval [prog_simps]: "throw e s = (Inl e, s)"
  by (simp add: throw_def)

lemma bnd_eval [prog_simps]:
  "bnd m f s = (case m s of (Inl e, s') \<Rightarrow> (Inl e, s') | (Inr a, s') \<Rightarrow> f a s')"
  by (simp add: bnd_def)

lemma andthen_eval [prog_simps]:
  "andthen m k s = (case m s of (Inl e, s') \<Rightarrow> (Inl e, s') | (Inr a, s') \<Rightarrow> k s')"
  by (simp add: andthen_def bnd_def)

lemma gets_eval [prog_simps]: "gets f s = (Inr (f s), s)"
  by (simp add: gets_def)

lemma modify_eval [prog_simps]: "modify f s = (Inr (), f s)"
  by (simp add: modify_def)

lemma guard_eval [prog_simps]:
  "guard b what s = (if b then (Inr (), s) else (Inl (Undefined_behaviour what), s))"
  by (simp add: guard_def ret_def throw_def)

lemma doif_eval [prog_simps]: "doif b m s = (if b then m s else (Inr (), s))"
  by (simp add: doif_def ret_def)

lemma on_throw_eval [prog_simps]:
  "on_throw m h s = (case m s of (Inl e, s') \<Rightarrow> (Inl e, h s') | (Inr a, s') \<Rightarrow> (Inr a, s'))"
  by (simp add: on_throw_def)

lemma on_snd_eval [prog_simps]: "on_snd m (ob, w) = (case m w of (r, w') \<Rightarrow> (r, (ob, w')))"
  by (simp add: on_snd_def)

section \<open>Programs that keep an invariant\<close>

text \<open>
  \<open>keeps I m\<close>: \<open>m\<close> preserves the invariant \<open>I\<close>, also when it ends with an exception. The
  rules follow the structure of a program.
\<close>

definition keeps :: "('s \<Rightarrow> bool) \<Rightarrow> ('s, 'a) prog \<Rightarrow> bool" where
  "keeps I m \<longleftrightarrow> (\<forall>s. I s \<longrightarrow> I (snd (m s)))"

lemma keepsI: "(\<And>s. I s \<Longrightarrow> I (snd (m s))) \<Longrightarrow> keeps I m"
  by (simp add: keeps_def)

lemma keepsD: "keeps I m \<Longrightarrow> I s \<Longrightarrow> m s = (r, s') \<Longrightarrow> I s'"
  unfolding keeps_def by (metis snd_conv)

lemma keeps_basic [keeps_intros]:
  "keeps I (ret a)" "keeps I (throw e)" "keeps I (gets f)"
  by (simp_all add: keeps_def ret_eval throw_eval gets_eval)

lemma keeps_guard [keeps_intros]: "keeps I (guard b what)"
  by (simp add: keeps_def guard_eval)

lemma keeps_bnd [keeps_intros]:
  assumes "keeps I m" "\<And>a. keeps I (f a)"
  shows "keeps I (bnd m f)"
proof (rule keepsI)
  fix s assume I: "I s"
  obtain r s' where m: "m s = (r, s')" by force
  from keepsD [OF assms(1) I m] assms(2) m show "I (snd (bnd m f s))"
    by (cases r) (simp_all add: bnd_eval keeps_def)
qed

lemma keeps_andthen [keeps_intros]: "keeps I m \<Longrightarrow> keeps I k \<Longrightarrow> keeps I (andthen m k)"
  unfolding andthen_def by (rule keeps_bnd)

lemma keeps_cond [keeps_intros]:
  "(b \<Longrightarrow> keeps I m) \<Longrightarrow> (\<not> b \<Longrightarrow> keeps I k) \<Longrightarrow> keeps I (if b then m else k)"
  by simp

lemma keeps_doif [keeps_intros]: "(b \<Longrightarrow> keeps I m) \<Longrightarrow> keeps I (doif b m)"
  by (simp add: doif_def keeps_basic)

lemma keeps_option [keeps_intros]:
  "(x = None \<Longrightarrow> keeps I m) \<Longrightarrow> (\<And>v. x = Some v \<Longrightarrow> keeps I (f v)) \<Longrightarrow> keeps I (case x of None \<Rightarrow> m | Some v \<Rightarrow> f v)"
  by (cases x) simp_all

lemma keeps_on_throw [keeps_intros]:
  assumes "keeps I m" "\<And>s. I s \<Longrightarrow> I (h s)"
  shows "keeps I (on_throw m h)"
proof (rule keepsI)
  fix s assume I: "I s"
  obtain r s' where m: "m s = (r, s')" by force
  from keepsD [OF assms(1) I m] assms(2) m show "I (snd (on_throw m h s))"
    by (cases r) (simp_all add: on_throw_eval)
qed

text \<open>\<open>ends m\<close>: no loop of \<open>m\<close> exceeds its number of rounds.\<close>

definition ends :: "('s, 'a) prog \<Rightarrow> bool" where
  "ends m \<longleftrightarrow> (\<forall>s. fst (m s) \<noteq> Inl Diverges)"

lemma ends_basic [keeps_intros]:
  "ends (ret a)" "e \<noteq> Diverges \<Longrightarrow> ends (throw e)" "ends (gets f)" "ends (modify g)"
  by (simp_all add: ends_def prog_simps)

lemma ends_guard [keeps_intros]: "ends (guard b what)"
  by (simp add: ends_def guard_eval)

lemma ends_bnd [keeps_intros]:
  assumes "ends m" "\<And>a. ends (f a)"
  shows "ends (bnd m f)"
  unfolding ends_def
proof
  fix s
  obtain r s' where m: "m s = (r, s')" by force
  then have "r \<noteq> Inl Diverges" using assms(1) unfolding ends_def by (metis fst_conv)
  with m assms(2) show "fst (bnd m f s) \<noteq> Inl Diverges"
    by (cases r) (simp_all add: bnd_eval ends_def)
qed

lemma ends_andthen [keeps_intros]: "ends m \<Longrightarrow> ends k \<Longrightarrow> ends (andthen m k)"
  unfolding andthen_def by (rule ends_bnd)

lemma ends_cond [keeps_intros]:
  "(b \<Longrightarrow> ends m) \<Longrightarrow> (\<not> b \<Longrightarrow> ends k) \<Longrightarrow> ends (if b then m else k)"
  by simp

lemma ends_doif [keeps_intros]: "(b \<Longrightarrow> ends m) \<Longrightarrow> ends (doif b m)"
  by (simp add: doif_def ends_basic)

lemma ends_option [keeps_intros]:
  "(x = None \<Longrightarrow> ends m) \<Longrightarrow> (\<And>v. x = Some v \<Longrightarrow> ends (f v)) \<Longrightarrow> ends (case x of None \<Rightarrow> m | Some v \<Rightarrow> f v)"
  by (cases x) simp_all

lemma ends_on_throw [keeps_intros]: "ends m \<Longrightarrow> ends (on_throw m h)"
  by (auto simp: ends_def on_throw_eval split: prod.splits sum.splits; metis fst_conv)

lemma ends_on_snd [keeps_intros]: "ends m \<Longrightarrow> ends (on_snd m)"
  by (auto simp: ends_def on_snd_def split: prod.splits; metis fst_conv)

lemma endsD: "ends m \<Longrightarrow> fst (m s) \<noteq> Inl Diverges"
  by (simp add: ends_def)

section \<open>Programs with defined behaviour\<close>

text \<open>
  \<open>triple P m Q E\<close>: from a state with \<open>P\<close>, the program \<open>m\<close> returns in a state with \<open>Q\<close> or
  throws in a state with \<open>E\<close>, and has no undefined behaviour. \<open>safe I m\<close> is the case of an
  invariant.
\<close>

definition triple :: "('s \<Rightarrow> bool) \<Rightarrow> ('s, 'a) prog \<Rightarrow> ('a \<Rightarrow> 's \<Rightarrow> bool) \<Rightarrow> ('s \<Rightarrow> bool) \<Rightarrow> bool" where
  "triple P m Q E \<longleftrightarrow> (\<forall>s. P s \<longrightarrow> (case m s of (Inr a, s') \<Rightarrow> Q a s'
     | (Inl e, s') \<Rightarrow> (\<forall>u. e \<noteq> Undefined_behaviour u) \<and> E s'))"

definition safe :: "('s \<Rightarrow> bool) \<Rightarrow> ('s, 'a) prog \<Rightarrow> bool" where
  "safe I m \<longleftrightarrow> triple I m (\<lambda>_. I) I"

lemma tripleI:
  assumes "\<And>s a s'. P s \<Longrightarrow> m s = (Inr a, s') \<Longrightarrow> Q a s'"
    "\<And>s e s'. P s \<Longrightarrow> m s = (Inl e, s') \<Longrightarrow> (\<forall>u. e \<noteq> Undefined_behaviour u) \<and> E s'"
  shows "triple P m Q E"
  using assms unfolding triple_def by (fastforce split: prod.split sum.split)

lemma triple_InrD: "triple P m Q E \<Longrightarrow> P s \<Longrightarrow> m s = (Inr a, s') \<Longrightarrow> Q a s'"
  unfolding triple_def by (metis (mono_tags, lifting) case_prod_conv sum.simps(6))

lemma triple_InlD: "triple P m Q E \<Longrightarrow> P s \<Longrightarrow> m s = (Inl e, s') \<Longrightarrow> e \<noteq> Undefined_behaviour u \<and> E s'"
  unfolding triple_def by (metis (mono_tags, lifting) case_prod_conv sum.simps(5))

lemma triple_bnd:
  assumes "triple P m R E" "\<And>a. triple (R a) (f a) Q E"
  shows "triple P (bnd m f) Q E"
  unfolding triple_def
proof (intro allI impI)
  fix s assume P: "P s"
  obtain r s' where m: "m s = (r, s')" by force
  show "case bnd m f s of (Inr a, s') \<Rightarrow> Q a s' | (Inl e, s') \<Rightarrow> (\<forall>u. e \<noteq> Undefined_behaviour u) \<and> E s'"
  proof (cases r)
    case (Inl e)
    with m triple_InlD [OF assms(1) P] show ?thesis by (simp add: bnd_eval)
  next
    case (Inr a)
    with m triple_InrD [OF assms(1) P] have "R a s'" by simp
    with assms(2) [of a] m Inr show ?thesis by (simp add: bnd_eval triple_def)
  qed
qed

lemma triple_andthen: "triple P m (\<lambda>_. R) E \<Longrightarrow> triple R k Q E \<Longrightarrow> triple P (andthen m k) Q E"
  unfolding andthen_def by (rule triple_bnd)

lemma triple_conseq:
  "triple P m Q E \<Longrightarrow> (\<And>s. P' s \<Longrightarrow> P s) \<Longrightarrow> (\<And>a s. Q a s \<Longrightarrow> Q' a s) \<Longrightarrow> (\<And>s. E s \<Longrightarrow> E' s) \<Longrightarrow> triple P' m Q' E'"
  unfolding triple_def by (fastforce split: prod.split sum.split)

lemma triple_on_throw:
  assumes "triple P m Q E'" "\<And>s. E' s \<Longrightarrow> E (h s)"
  shows "triple P (on_throw m h) Q E"
proof (rule tripleI)
  fix s a s' assume P: "P s" "on_throw m h s = (Inr a, s')"
  then have "m s = (Inr a, s')" by (auto simp: on_throw_eval split: prod.splits sum.splits)
  then show "Q a s'" by (rule triple_InrD [OF assms(1) P(1)])
next
  fix s e s' assume P: "P s" "on_throw m h s = (Inl e, s')"
  then obtain s1 where "m s = (Inl e, s1)" "s' = h s1" by (auto simp: on_throw_eval split: prod.splits sum.splits)
  then show "(\<forall>u. e \<noteq> Undefined_behaviour u) \<and> E s'" using triple_InlD [OF assms(1) P(1)] assms(2) by blast
qed

lemma triple_modify: "(\<And>s. P s \<Longrightarrow> Q () (f s)) \<Longrightarrow> triple P (modify f) Q E"
  by (simp add: triple_def prog_simps)

lemma triple_gets: "(\<And>s. P s \<Longrightarrow> Q (g s) s) \<Longrightarrow> triple P (gets g) Q E"
  by (simp add: triple_def prog_simps)

lemma safe_basic [safe_intros]:
  "safe I (ret a)" "(\<And>u. e \<noteq> Undefined_behaviour u) \<Longrightarrow> safe I (throw e)" "safe I (gets g)"
  by (simp_all add: safe_def triple_def prog_simps)

lemma safe_guard: "(\<And>s. I s \<Longrightarrow> b) \<Longrightarrow> safe I (guard b what)"
  by (simp add: safe_def triple_def guard_eval)

lemma safe_modify: "(\<And>s. I s \<Longrightarrow> I (f s)) \<Longrightarrow> safe I (modify f)"
  by (simp add: safe_def triple_modify)

lemma safe_bnd: "safe I m \<Longrightarrow> (\<And>a. safe I (f a)) \<Longrightarrow> safe I (bnd m f)"
  unfolding safe_def by (rule triple_bnd)

lemma safe_andthen [safe_intros]: "safe I m \<Longrightarrow> safe I k \<Longrightarrow> safe I (andthen m k)"
  unfolding andthen_def by (rule safe_bnd)

lemma safe_cond [safe_intros]:
  "(b \<Longrightarrow> safe I m) \<Longrightarrow> (\<not> b \<Longrightarrow> safe I k) \<Longrightarrow> safe I (if b then m else k)"
  by simp

lemma safe_doif [safe_intros]: "(b \<Longrightarrow> safe I m) \<Longrightarrow> safe I (doif b m)"
  by (simp add: doif_def safe_basic)

lemma safe_option [safe_intros]:
  "(x = None \<Longrightarrow> safe I m) \<Longrightarrow> (\<And>v. x = Some v \<Longrightarrow> safe I (f v)) \<Longrightarrow> safe I (case x of None \<Rightarrow> m | Some v \<Rightarrow> f v)"
  by (cases x) simp_all

lemma safe_on_throw [safe_intros]:
  assumes "safe I m" "\<And>s. I s \<Longrightarrow> I (h s)"
  shows "safe I (on_throw m h)"
  using assms unfolding safe_def triple_def
  by (auto simp: on_throw_eval split: prod.splits sum.splits)

lemma safe_gets: "(\<And>s. I s \<Longrightarrow> safe I (f (g s))) \<Longrightarrow> safe I (bnd (gets g) f)"
  by (simp add: safe_def triple_def bnd_eval gets_eval)

lemma safe_on_snd: "safe I m \<Longrightarrow> safe (\<lambda>(ob, w). P ob \<and> I w) (on_snd m)"
  unfolding safe_def
  by (rule tripleI) (auto simp: on_snd_def split: prod.splits dest: triple_InrD triple_InlD)

lemma safeI:
  assumes "keeps I m" "\<And>s u. fst (m s) \<noteq> Inl (Undefined_behaviour u)"
  shows "safe I m"
  unfolding safe_def
proof (rule tripleI)
  fix s e s' assume "I s" "m s = (Inl e, s')"
  then show "(\<forall>u. e \<noteq> Undefined_behaviour u) \<and> I s'" using assms(2) [of s] keepsD [OF assms(1)] by auto
qed (rule keepsD [OF assms(1)])

lemma safe_keeps: "safe I m \<Longrightarrow> keeps I m"
proof (rule keepsI)
  fix s assume m: "safe I m" and I: "I s"
  obtain r s' where r: "m s = (r, s')" by force
  have t: "triple I m (\<lambda>_. I) I" using m by (simp add: safe_def)
  show "I (snd (m s))"
    using triple_InrD [OF t I] triple_InlD [OF t I] r by (cases r) simp_all
qed

lemma safeD: "safe I m \<Longrightarrow> I s \<Longrightarrow> fst (m s) \<noteq> Inl (Undefined_behaviour u)"
  using triple_InlD [of I m "\<lambda>_. I" I s] unfolding safe_def by (cases "m s") auto

text \<open>The result of a run without undefined behaviour.\<close>

definition no_ub :: "(exn + 'a) \<times> 's \<Rightarrow> bool" where
  "no_ub r \<longleftrightarrow> (\<forall>u. fst r \<noteq> Inl (Undefined_behaviour u))"

section \<open>The interface of a byte queue\<close>

text \<open>
  Traffic on a queue: \<open>Put xs\<close> adds bytes at the end, \<open>Take n\<close> removes \<open>n\<close> bytes from the
  front. \<open>fifo_run\<close> also collects what was taken; \<open>fifo_fits\<close> says that every step of the
  traffic is allowed.
\<close>

datatype 'b traffic = Put "'b list" | Take nat

fun fifo_run :: "('b list \<Rightarrow> 'q \<Rightarrow> 'q) \<Rightarrow> (nat \<Rightarrow> 'q \<Rightarrow> 'q) \<Rightarrow> ('q \<Rightarrow> 'b list) \<Rightarrow> 'b traffic list \<Rightarrow> 'q \<Rightarrow> 'b list \<times> 'q" where
  "fifo_run put drp cont [] q = ([], q)"
| "fifo_run put drp cont (Put xs # ts) q = fifo_run put drp cont ts (put xs q)"
| "fifo_run put drp cont (Take n # ts) q =
     (let (out, q') = fifo_run put drp cont ts (drp n q) in (take n (cont q) @ out, q'))"

fun fifo_fits :: "('b list \<Rightarrow> 'q \<Rightarrow> 'q) \<Rightarrow> (nat \<Rightarrow> 'q \<Rightarrow> 'q) \<Rightarrow> ('q \<Rightarrow> 'b list) \<Rightarrow> ('q \<Rightarrow> nat \<Rightarrow> bool) \<Rightarrow> 'b traffic list \<Rightarrow> 'q \<Rightarrow> bool" where
  "fifo_fits put drp cont room [] q = True"
| "fifo_fits put drp cont room (Put xs # ts) q =
     (room q (length xs) \<and> fifo_fits put drp cont room ts (put xs q))"
| "fifo_fits put drp cont room (Take n # ts) q =
     (n \<le> length (cont q) \<and> fifo_fits put drp cont room ts (drp n q))"

fun put_bytes :: "'b traffic list \<Rightarrow> 'b list" where
  "put_bytes [] = []"
| "put_bytes (Put xs # ts) = xs @ put_bytes ts"
| "put_bytes (Take n # ts) = put_bytes ts"

locale byte_fifo =
  fixes invar :: "'q \<Rightarrow> bool"
    and content :: "'q \<Rightarrow> 'b list"
    and room :: "'q \<Rightarrow> nat \<Rightarrow> bool"
    and put :: "'b list \<Rightarrow> 'q \<Rightarrow> 'q"
    and drop_front :: "nat \<Rightarrow> 'q \<Rightarrow> 'q"
  assumes content_put: "invar q \<Longrightarrow> room q (length xs) \<Longrightarrow> content (put xs q) = content q @ xs"
    and invar_put: "invar q \<Longrightarrow> room q (length xs) \<Longrightarrow> invar (put xs q)"
    and content_drop: "invar q \<Longrightarrow> n \<le> length (content q) \<Longrightarrow> content (drop_front n q) = drop n (content q)"
    and invar_drop: "invar q \<Longrightarrow> n \<le> length (content q) \<Longrightarrow> invar (drop_front n q)"
begin

text \<open>Bytes leave in the order in which they came, and the rest is still queued.\<close>

lemma fifo_order:
  "invar q \<Longrightarrow> fifo_fits put drop_front content room ts q \<Longrightarrow>
     fifo_run put drop_front content ts q = (out, q') \<Longrightarrow>
     out @ content q' = content q @ put_bytes ts \<and> invar q'"
proof (induction ts arbitrary: q out)
  case Nil
  then show ?case by simp
next
  case (Cons t ts)
  show ?case
  proof (cases t)
    case (Put xs)
    with Cons.IH [of "put xs q" out] Cons.prems show ?thesis by (simp add: content_put invar_put)
  next
    case (Take n)
    obtain out' where r: "fifo_run put drop_front content ts (drop_front n q) = (out', q')"
      and out: "out = take n (content q) @ out'"
      using Cons.prems(3) Take by (auto split: prod.splits)
    have "invar (drop_front n q)" and "content (drop_front n q) = drop n (content q)"
      and "fifo_fits put drop_front content room ts (drop_front n q)"
      using Cons.prems(1,2) Take by (simp_all add: invar_drop content_drop)
    with Cons.IH [OF _ _ r] show ?thesis
      by (simp add: out Take)
  qed
qed

end

end
