(* ===== verification/Util_MemoryPool.thy ===== *)
theory Util_MemoryPool
  imports Prelude
begin

text \<open>
  \<open>util::MemoryPool\<close> (\<open>src/util/memory_pool.h\<close>, \<open>src/util/memory_pool.cpp\<close>): fixed-size
  blocks of one array, linked through their first word into a free list. Addresses are
  64-bit numbers with 0 for \<open>nullptr\<close>; \<open>next_ptr\<close> is the content of the \<open>Block::next\<close>
  word at each address, so the aliasing between blocks and the list is explicit. The
  mutex makes each operation one atomic step.
\<close>

section \<open>State and operations\<close>

record MemoryPool =
  block_size :: size_t
  num_blocks :: size_t
  allocated_count :: size_t
  free_list :: nat
  memory :: nat
  next_ptr :: "nat \<Rightarrow> nat"

definition sizeof_Block :: size_t where
  "sizeof_Block = 8"

definition total_size :: "size_t \<Rightarrow> size_t \<Rightarrow> size_t" where
  "total_size bs n = usz_mul bs n"

text \<open>
  One round of the loop that links the blocks of the array of \<open>len\<close> bytes at \<open>arr\<close>; the pair
  is the current block and the links. A next pointer written outside the array is undefined
  behaviour.
\<close>

definition write_next ::
  "nat \<Rightarrow> size_t \<Rightarrow> nat \<Rightarrow> nat \<Rightarrow> (nat \<Rightarrow> nat) \<Rightarrow> exn + (nat \<Rightarrow> nat)" where
  "write_next arr len current v nx =
     (if arr \<le> current \<and> current + sizeof_Block \<le> arr + len then Inr (nx(current := v))
      else Inl (Undefined_behaviour ''MemoryPool: next pointer outside the array''))"

fun link_step :: "nat \<Rightarrow> size_t \<Rightarrow> size_t \<Rightarrow> nat \<Rightarrow> exn + nat \<times> (nat \<Rightarrow> nat) \<Rightarrow>
    exn + nat \<times> (nat \<Rightarrow> nat)" where
  "link_step arr len bs i (Inl e) = Inl e"
| "link_step arr len bs i (Inr (current, nx)) =
     (let next = usz_add arr (usz_mul (usz_add i 1) bs)
      in case write_next arr len current next nx of
           Inl e \<Rightarrow> Inl e
         | Inr nx' \<Rightarrow> Inr (next, nx'))"

definition Initialize :: "nat \<Rightarrow> MemoryPool \<Rightarrow> exn + MemoryPool" where
  "Initialize arr p =
     (let len = total_size (block_size p) (num_blocks p)
      in case fold (link_step arr len (block_size p)) [0..<usz_sub (num_blocks p) 1]
                (Inr (arr, \<lambda>_. 0)) of
           Inl e \<Rightarrow> Inl e
         | Inr (current, nx) \<Rightarrow>
             (case write_next arr len current 0 nx of
                Inl e \<Rightarrow> Inl e
              | Inr nx' \<Rightarrow> Inr (p\<lparr>memory := arr, free_list := arr, next_ptr := nx',
                                allocated_count := 0\<rparr>)))"

text \<open>
  The constructor. The operator \<open>new char[n]\<close> is a parameter: the address of a fresh
  array of \<open>n\<close> bytes, or \<open>None\<close> when it throws \<open>std::bad_alloc\<close>.
\<close>

definition MemoryPool_new :: "(size_t \<Rightarrow> nat option) \<Rightarrow> size_t \<Rightarrow> size_t \<Rightarrow> exn + MemoryPool" where
  "MemoryPool_new new_array bs n =
     (let p = \<lparr>block_size = (if bs < sizeof_Block then sizeof_Block else bs),
               num_blocks = n, allocated_count = 0, free_list = 0, memory = 0,
               next_ptr = (\<lambda>_. 0)\<rparr>
      in if block_size p = 0 \<or> num_blocks p = 0
         then Inl (Invalid_argument ''block_size and num_blocks must be greater than 0'')
         else (case new_array (total_size (block_size p) (num_blocks p)) of
                 None \<Rightarrow> Inl Bad_alloc
               | Some arr \<Rightarrow> Initialize arr p))"

definition Allocate :: "MemoryPool \<Rightarrow> nat \<times> MemoryPool" where
  "Allocate p =
     (if free_list p = 0 then (0, p)
      else let block = free_list p
           in (block, p\<lparr>free_list := next_ptr p block,
                        allocated_count := usz_add (allocated_count p) 1\<rparr>))"

definition IsValidPointer :: "MemoryPool \<Rightarrow> nat \<Rightarrow> bool" where
  "IsValidPointer p ptr =
     (if ptr < memory p \<or> usz_add (memory p) (usz_mul (num_blocks p) (block_size p)) \<le> ptr
      then False
      else usz_sub ptr (memory p) mod block_size p = 0)"

text \<open>The first component is what the operation prints on the error stream.\<close>

definition Deallocate :: "nat \<Rightarrow> MemoryPool \<Rightarrow> string list \<times> MemoryPool" where
  "Deallocate ptr p =
     (if ptr = 0 then ([], p)
      else if \<not> IsValidPointer p ptr then ([''MemoryPool: Invalid pointer detected''], p)
      else ([], p\<lparr>next_ptr := (next_ptr p)(ptr := free_list p), free_list := ptr,
                  allocated_count := usz_sub (allocated_count p) 1\<rparr>))"

definition GetBlockSize :: "MemoryPool \<Rightarrow> size_t" where
  "GetBlockSize p = block_size p"

definition GetNumBlocks :: "MemoryPool \<Rightarrow> size_t" where
  "GetNumBlocks p = num_blocks p"

definition GetAllocatedCount :: "MemoryPool \<Rightarrow> size_t" where
  "GetAllocatedCount p = allocated_count p"

definition GetAvailableCount :: "MemoryPool \<Rightarrow> size_t" where
  "GetAvailableCount p = usz_sub (num_blocks p) (allocated_count p)"

definition IsFromPool :: "MemoryPool \<Rightarrow> nat \<Rightarrow> bool" where
  "IsFromPool p ptr = IsValidPointer p ptr"

section \<open>Free list and invariant\<close>

text \<open>\<open>walk n nx a\<close> follows at most \<open>n\<close> next pointers from \<open>a\<close>.\<close>

fun walk :: "nat \<Rightarrow> (nat \<Rightarrow> nat) \<Rightarrow> nat \<Rightarrow> nat list" where
  "walk 0 nx a = []"
| "walk (Suc n) nx a = (if a = 0 then [] else a # walk n nx (nx a))"

fun chain :: "(nat \<Rightarrow> nat) \<Rightarrow> nat \<Rightarrow> nat list \<Rightarrow> bool" where
  "chain nx a [] = (a = 0)"
| "chain nx a (b # bs) = (a = b \<and> b \<noteq> 0 \<and> chain nx (nx b) bs)"

definition free_blocks :: "MemoryPool \<Rightarrow> nat list" where
  "free_blocks p = walk (num_blocks p) (next_ptr p) (free_list p)"

definition block_addr :: "MemoryPool \<Rightarrow> nat \<Rightarrow> nat" where
  "block_addr p i = memory p + i * block_size p"

definition pool_blocks :: "MemoryPool \<Rightarrow> nat set" where
  "pool_blocks p = block_addr p ` {..<num_blocks p}"

text \<open>The array lies inside the address space, away from the null address.\<close>

definition pool_layout :: "MemoryPool \<Rightarrow> bool" where
  "pool_layout p \<longleftrightarrow> sizeof_Block \<le> block_size p \<and> 0 < num_blocks p \<and> 0 < memory p \<and>
     memory p + num_blocks p * block_size p < 2 ^ 64"

definition pool_inv :: "MemoryPool \<Rightarrow> bool" where
  "pool_inv p \<longleftrightarrow> pool_layout p \<and>
     chain (next_ptr p) (free_list p) (free_blocks p) \<and> distinct (free_blocks p) \<and>
     set (free_blocks p) \<subseteq> pool_blocks p \<and>
     allocated_count p + length (free_blocks p) = num_blocks p"

text \<open>
  Steps of the pool and its clients: an allocation, the return of an allocated block, the
  return of an address that is no block (refused), and a client that writes its own data
  over the first word of a block it holds.
\<close>

inductive pool_step :: "MemoryPool \<Rightarrow> MemoryPool \<Rightarrow> bool" where
  step_allocate: "pool_step p (snd (Allocate p))"
| step_deallocate: "a \<in> pool_blocks p \<Longrightarrow> a \<notin> set (free_blocks p) \<Longrightarrow>
    pool_step p (snd (Deallocate a p))"
| step_refused: "a \<notin> pool_blocks p \<Longrightarrow> pool_step p (snd (Deallocate a p))"
| step_client_write: "a \<in> pool_blocks p \<Longrightarrow> a \<notin> set (free_blocks p) \<Longrightarrow>
    pool_step p (p\<lparr>next_ptr := (next_ptr p)(a := v)\<rparr>)"

inductive pool_reach :: "MemoryPool \<Rightarrow> MemoryPool \<Rightarrow> bool" for p where
  reach_start: "pool_reach p p"
| reach_step: "pool_reach p q \<Longrightarrow> pool_step q r \<Longrightarrow> pool_reach p r"

text \<open>
  The same history with the set \<open>H\<close> of blocks the clients hold: what \<open>Allocate\<close> has handed out
  and no client has returned yet.
\<close>

inductive pool_clients :: "MemoryPool \<Rightarrow> MemoryPool \<Rightarrow> nat set \<Rightarrow> bool" for p where
  clients_start: "pool_clients p p {}"
| clients_allocate: "pool_clients p q H \<Longrightarrow> fst (Allocate q) = a \<Longrightarrow> a \<noteq> 0 \<Longrightarrow>
    pool_clients p (snd (Allocate q)) (insert a H)"
| clients_exhausted: "pool_clients p q H \<Longrightarrow> fst (Allocate q) = 0 \<Longrightarrow>
    pool_clients p (snd (Allocate q)) H"
| clients_return: "pool_clients p q H \<Longrightarrow> a \<in> H \<Longrightarrow>
    pool_clients p (snd (Deallocate a q)) (H - {a})"
| clients_refused: "pool_clients p q H \<Longrightarrow> a \<notin> pool_blocks q \<Longrightarrow>
    pool_clients p (snd (Deallocate a q)) H"
| clients_write: "pool_clients p q H \<Longrightarrow> a \<in> H \<Longrightarrow>
    pool_clients p (q\<lparr>next_ptr := (next_ptr q)(a := v)\<rparr>) H"

text \<open>\<open>n\<close> allocations in a row, on any allocator.\<close>

fun alloc_many :: "('s \<Rightarrow> nat \<times> 's) \<Rightarrow> nat \<Rightarrow> 's \<Rightarrow> nat list \<times> 's" where
  "alloc_many al 0 s = ([], s)"
| "alloc_many al (Suc n) s =
     (let (a, s1) = al s; (as, s2) = alloc_many al n s1 in (a # as, s2))"

section \<open>The allocator interface\<close>

text \<open>
  What a client of the pool relies on, over the set \<open>free\<close> of blocks not handed out: an
  allocation takes any free block, or answers 0 when there is none; a returned block is
  free again.
\<close>

locale block_allocator =
  fixes alloc :: "'s \<Rightarrow> nat \<times> 's"
    and dealloc :: "nat \<Rightarrow> 's \<Rightarrow> 's"
    and invar :: "'s \<Rightarrow> bool"
    and free :: "'s \<Rightarrow> nat set"
    and blocks :: "'s \<Rightarrow> nat set"
  assumes finite_blocks: "invar s \<Longrightarrow> finite (blocks s)"
    and null_no_block: "invar s \<Longrightarrow> 0 \<notin> blocks s"
    and free_blocks_sub: "invar s \<Longrightarrow> free s \<subseteq> blocks s"
    and alloc_empty: "invar s \<Longrightarrow> free s = {} \<Longrightarrow> alloc s = (0, s)"
    and alloc_takes: "invar s \<Longrightarrow> free s \<noteq> {} \<Longrightarrow> fst (alloc s) \<in> free s"
    and free_alloc: "invar s \<Longrightarrow> free (snd (alloc s)) = free s - {fst (alloc s)}"
    and blocks_alloc: "invar s \<Longrightarrow> blocks (snd (alloc s)) = blocks s"
    and invar_alloc: "invar s \<Longrightarrow> invar (snd (alloc s))"
    and free_dealloc: "invar s \<Longrightarrow> a \<in> blocks s \<Longrightarrow> a \<notin> free s \<Longrightarrow>
           free (dealloc a s) = insert a (free s)"
    and blocks_dealloc: "invar s \<Longrightarrow> blocks (dealloc a s) = blocks s"
    and invar_dealloc: "invar s \<Longrightarrow> a \<in> blocks s \<Longrightarrow> a \<notin> free s \<Longrightarrow> invar (dealloc a s)"
begin

lemma finite_free: "invar s \<Longrightarrow> finite (free s)"
  using finite_subset [OF free_blocks_sub finite_blocks] by blast

lemma alloc_null_iff: "invar s \<Longrightarrow> fst (alloc s) = 0 \<longleftrightarrow> free s = {}"
  using alloc_empty alloc_takes free_blocks_sub null_no_block by (metis fst_conv subsetD)

lemma alloc_many_spec:
  "invar s \<Longrightarrow> n \<le> card (free s) \<Longrightarrow> alloc_many alloc n s = (as, t) \<Longrightarrow>
     length as = n \<and> distinct as \<and> set as \<subseteq> free s \<and> free t = free s - set as \<and>
     blocks t = blocks s \<and> invar t"
proof (induction n arbitrary: s as t)
  case 0
  then show ?case by simp
next
  case (Suc n)
  obtain a s1 where al: "alloc s = (a, s1)" by (cases "alloc s") auto
  obtain as' where rest: "alloc_many alloc n s1 = (as', t)" and as: "as = a # as'"
    using Suc.prems(3) al by (auto split: prod.splits)
  have "free s \<noteq> {}" using Suc.prems(2) by auto
  then have a: "a \<in> free s" using alloc_takes [OF Suc.prems(1)] al by simp
  have free1: "free s1 = free s - {a}" using free_alloc [OF Suc.prems(1)] al by simp
  have "n \<le> card (free s1)"
    using Suc.prems(2) a finite_free [OF Suc.prems(1)] free1 by simp
  moreover have "invar s1" and "blocks s1 = blocks s"
    using invar_alloc [OF Suc.prems(1)] blocks_alloc [OF Suc.prems(1)] al by simp_all
  ultimately show ?case
    using Suc.IH [OF _ _ rest] a free1 as by auto
qed

text \<open>All free blocks can be handed out, no block twice, and then the answer is 0.\<close>

lemma alloc_all:
  assumes "invar s" "alloc_many alloc (card (free s)) s = (as, t)"
  shows "set as = free s \<and> distinct as \<and> fst (alloc t) = 0"
proof -
  have spec: "length as = card (free s)" "distinct as" "set as \<subseteq> free s"
    "free t = free s - set as" "invar t"
    using alloc_many_spec [OF assms(1) _ assms(2)] by simp_all
  have "set as = free s"
    using spec(1-3) finite_free [OF assms(1)] by (metis card_subset_eq distinct_card)
  with spec show ?thesis by (simp add: alloc_null_iff)
qed

end

section \<open>Lemmas\<close>

lemma walk_chain: "chain nx a xs \<Longrightarrow> length xs \<le> n \<Longrightarrow> walk n nx a = xs"
proof (induction xs arbitrary: a n)
  case Nil
  then show ?case by (cases n) auto
next
  case (Cons x xs)
  then show ?case by (cases n) auto
qed

lemma chain_upd [simp]: "u \<notin> set xs \<Longrightarrow> chain (nx(u := v)) a xs = chain nx a xs"
  by (induction xs arbitrary: a) auto

lemma chain_null_iff: "chain nx a xs \<Longrightarrow> (a = 0) = (xs = [])"
  by (cases xs) auto

lemma chain_arith:
  assumes "0 < a" "\<forall>i<k. nx (a + i * b) = a + Suc i * b" "nx (a + k * b) = 0"
  shows "chain nx a (map (\<lambda>i. a + i * b) [0..<Suc k])"
  using assms
proof (induction k arbitrary: a)
  case 0
  then show ?case by simp
next
  case (Suc k)
  have "chain nx (a + b) (map (\<lambda>i. (a + b) + i * b) [0..<Suc k])"
  proof (rule Suc.IH)
    show "\<forall>i<k. nx ((a + b) + i * b) = (a + b) + Suc i * b"
      using Suc.prems(2) by (metis Suc_less_eq add.assoc mult_Suc)
  qed (use Suc.prems in \<open>simp_all add: algebra_simps\<close>)
  moreover have "map (\<lambda>i. a + i * b) [0..<Suc (Suc k)] = a # map (\<lambda>i. (a + b) + i * b) [0..<Suc k]"
    by (simp add: upt_conv_Cons map_Suc_upt [symmetric] algebra_simps del: upt_Suc)
  moreover have "nx a = a + b"
    using Suc.prems(2) by force
  ultimately show ?case
    using Suc.prems(1) by (simp del: upt_Suc)
qed

text \<open>Writes inside the array, and the links they leave.\<close>

lemma write_next_inside:
  "arr \<le> c \<Longrightarrow> c + 8 \<le> arr + len \<Longrightarrow> write_next arr len c v nx = Inr (nx(c := v))"
  by (simp add: write_next_def sizeof_Block_def)

lemma link_step_fold:
  assumes "arr + k * b < 2 ^ 64" "8 \<le> b" "k * b \<le> len"
  shows "fold (link_step arr len b) [0..<k] (Inr (arr, \<lambda>_. 0)) =
         Inr (arr + k * b, \<lambda>a. if \<exists>i<k. a = arr + i * b then a + b else 0)"
  using assms(1,3)
proof (induction k)
  case 0
  then show ?case by simp
next
  case (Suc k)
  have "Suc k * 1 \<le> Suc k * b" using assms(2) by (intro mult_le_mono) auto
  then have "usz_add arr (usz_mul (usz_add k 1) b) = arr + Suc k * b"
    using Suc.prems by (simp add: usz_simps)
  moreover have "(\<lambda>a. if \<exists>i<k. a = arr + i * b then a + b else 0)(arr + k * b := arr + Suc k * b) =
      (\<lambda>a. if \<exists>i<Suc k. a = arr + i * b then a + b else 0)"
    using assms(2) by (auto simp: fun_eq_iff less_Suc_eq)
  ultimately show ?case
    using Suc assms(2) by (simp add: write_next_inside Let_def)
qed

text \<open>The writes of the loop when the addresses may wrap around.\<close>

lemma link_step_fold_Inl [simp]: "fold (link_step arr len b) xs (Inl e) = Inl e"
  by (induction xs) simp_all

lemma link_step_current:
  assumes "fold (link_step arr len b) [0..<k] (Inr (arr, nx0)) = Inr (c, nx)" "arr < 2 ^ 64"
  shows "c = (arr + k * b) mod 2 ^ 64"
proof (cases k)
  case (Suc m)
  then obtain c' nx' where "fold (link_step arr len b) [0..<m] (Inr (arr, nx0)) = Inr (c', nx')"
    using assms(1) by (cases "fold (link_step arr len b) [0..<m] (Inr (arr, nx0))") auto
  with assms(1) Suc show ?thesis
    by (auto simp: Let_def usz_add_def usz_mul_def mod_simps split: sum.splits)
qed (use assms in simp)

lemma Initialize_out_of_range:
  assumes "i < num_blocks p" "num_blocks p < 2 ^ 64" "arr < 2 ^ 64"
    and "\<not> (arr \<le> (arr + i * block_size p) mod 2 ^ 64 \<and>
             (arr + i * block_size p) mod 2 ^ 64 + 8
               \<le> arr + total_size (block_size p) (num_blocks p))"
  shows "\<exists>u. Initialize arr p = Inl (Undefined_behaviour u)"
proof -
  define b len n where "b = block_size p" and "len = total_size (block_size p) (num_blocks p)"
    and "n = num_blocks p"
  let ?st = "\<lambda>k. fold (link_step arr len b) [0..<k] (Inr (arr, \<lambda>_. 0))"
  have only_ub: "\<exists>u. e = Undefined_behaviour u" if "?st k = Inl e" for k e
    using that
  proof (induction k)
    case (Suc k)
    then show ?case
      by (cases "?st k") (auto simp: Let_def write_next_def split: if_splits)
  qed simp
  have bad: "write_next arr len c v nx = Inl (Undefined_behaviour ''MemoryPool: next pointer outside the array'')"
    if "?st i = Inr (c, nx)" for c v nx
    using assms(4) link_step_current [OF that assms(3)]
    by (simp add: write_next_def sizeof_Block_def b_def len_def)
  have sub: "usz_sub n 1 = n - 1" using assms(1,2) by (simp add: usz_simps n_def)
  have after: "\<exists>e. ?st k = Inl e" if "i < k" for k
    using that
  proof (induction k)
    case (Suc k)
    show ?case
    proof (cases "i = k")
      case True
      then show ?thesis using bad by (cases "?st k") (auto simp: Let_def)
    next
      case False
      then show ?thesis using Suc by force
    qed
  qed simp
  have eval: "Initialize arr p = (case ?st (n - 1) of Inl e \<Rightarrow> Inl e
      | Inr (c, nx) \<Rightarrow> (case write_next arr len c 0 nx of Inl e \<Rightarrow> Inl e
          | Inr nx' \<Rightarrow> Inr (p\<lparr>memory := arr, free_list := arr, next_ptr := nx', allocated_count := 0\<rparr>)))"
    unfolding Initialize_def Let_def len_def b_def sub [unfolded n_def] n_def ..
  show ?thesis
  proof (cases "?st (n - 1)")
    case (Inl e)
    then show ?thesis using only_ub eval by auto
  next
    case (Inr st)
    then have "i = n - 1" using after [of "n - 1"] assms(1) n_def by force
    with Inr bad eval show ?thesis by (cases st) auto
  qed
qed

lemma block_addr_inj:
  assumes "0 < block_size p" shows "inj (block_addr p)"
  using assms by (auto simp: inj_def block_addr_def)

lemma pool_layout_facts:
  assumes "pool_layout p"
  shows "0 < block_size p" "num_blocks p * block_size p < 2 ^ 64" "num_blocks p < 2 ^ 64"
    "memory p < 2 ^ 64" "0 \<notin> pool_blocks p" "finite (pool_blocks p)"
    "card (pool_blocks p) = num_blocks p"
proof -
  show b: "0 < block_size p"
    using assms by (simp add: pool_layout_def sizeof_Block_def)
  show n: "num_blocks p * block_size p < 2 ^ 64" and "memory p < 2 ^ 64" and "0 \<notin> pool_blocks p"
    using assms by (auto simp: pool_layout_def pool_blocks_def block_addr_def)
  have "num_blocks p * 1 \<le> num_blocks p * block_size p" using b by (intro mult_le_mono) auto
  with n show "num_blocks p < 2 ^ 64" by linarith
  show "finite (pool_blocks p)" by (simp add: pool_blocks_def)
  show "card (pool_blocks p) = num_blocks p"
    using block_addr_inj [OF b] by (simp add: pool_blocks_def card_image inj_on_subset)
qed

text \<open>What a well-formed chain of \<open>xs\<close> makes of the pool.\<close>

lemma pool_invI:
  assumes "pool_layout p" "chain (next_ptr p) (free_list p) xs" "distinct xs"
    "set xs \<subseteq> pool_blocks p" "allocated_count p + length xs = num_blocks p"
  shows "pool_inv p" "free_blocks p = xs"
proof -
  show "free_blocks p = xs"
    using assms(2,5) by (simp add: free_blocks_def walk_chain)
  then show "pool_inv p"
    using assms by (simp add: pool_inv_def)
qed

lemma pool_invD:
  assumes "pool_inv p"
  shows "pool_layout p" "chain (next_ptr p) (free_list p) (free_blocks p)"
    "distinct (free_blocks p)" "set (free_blocks p) \<subseteq> pool_blocks p"
    "allocated_count p + length (free_blocks p) = num_blocks p"
  using assms by (simp_all add: pool_inv_def)

text \<open>What \<open>Initialize\<close> makes of an array that has room for all blocks.\<close>

definition linked_pool :: "nat \<Rightarrow> MemoryPool \<Rightarrow> MemoryPool" where
  "linked_pool arr p = p\<lparr>memory := arr, free_list := arr, allocated_count := 0,
     next_ptr := (\<lambda>a. if \<exists>i<num_blocks p - 1. a = arr + i * block_size p
                      then a + block_size p else 0)\<rparr>"

lemma Initialize_linked:
  assumes "pool_layout (p\<lparr>memory := arr\<rparr>)"
  shows "Initialize arr p = Inr (linked_pool arr p)"
proof -
  define b n where "b = block_size p" and "n = num_blocks p"
  obtain m where m: "n = Suc m"
    using assms by (cases n) (simp_all add: pool_layout_def n_def)
  have b: "8 \<le> b" and bound: "arr + n * b < 2 ^ 64" and nb: "n < 2 ^ 64"
    using assms pool_layout_facts [OF assms] by (simp_all add: pool_layout_def b_def n_def sizeof_Block_def)
  have len: "total_size b n = n * b" using bound by (simp add: total_size_def usz_simps mult.commute)
  have sub: "usz_sub n 1 = m" using m nb by (simp add: usz_simps)
  have mb: "arr + m * b < 2 ^ 64" "m * b \<le> n * b" using bound m by simp_all
  have last: "(\<lambda>a. if \<exists>i<m. a = arr + i * b then a + b else 0)(arr + m * b := 0) =
      (\<lambda>a. if \<exists>i<m. a = arr + i * b then a + b else 0)"
    using b by (auto simp: fun_eq_iff)
  show ?thesis
    unfolding Initialize_def linked_pool_def Let_def n_def [symmetric] b_def [symmetric] sub len
      link_step_fold [OF mb(1) b mb(2)]
    using b m last by (simp add: write_next_inside)
qed

lemma Initialize_inv:
  assumes "pool_layout (p\<lparr>memory := arr\<rparr>)"
  shows "pool_inv (linked_pool arr p)"
    and "set (free_blocks (linked_pool arr p)) = pool_blocks (linked_pool arr p)"
proof -
  define b n q where "b = block_size p" and "n = num_blocks p" and "q = linked_pool arr p"
  obtain m where m: "n = Suc m"
    using assms by (cases n) (simp_all add: pool_layout_def n_def)
  have b: "0 < b" and arr: "0 < arr"
    using assms pool_layout_facts [OF assms] by (simp_all add: pool_layout_def b_def)
  have q: "q = p\<lparr>memory := arr, free_list := arr, allocated_count := 0,
      next_ptr := (\<lambda>a. if \<exists>i<m. a = arr + i * b then a + b else 0)\<rparr>"
    using m unfolding q_def linked_pool_def n_def [symmetric] b_def [symmetric] by simp
  have ch: "chain (next_ptr q) arr (map (\<lambda>i. arr + i * b) [0..<Suc m])"
    by (rule chain_arith) (use arr b in \<open>auto simp: q\<close>)
  have blocks: "set (map (\<lambda>i. arr + i * b) [0..<Suc m]) = pool_blocks q"
    using m by (auto simp: pool_blocks_def block_addr_def q b_def n_def lessThan_atLeast0)
  have dist: "distinct (map (\<lambda>i. arr + i * b) [0..<Suc m])"
    using b by (auto simp: distinct_map inj_on_def)
  have "pool_layout q" using assms by (simp add: q pool_layout_def)
  note inv = pool_invI [OF this, of "map (\<lambda>i. arr + i * b) [0..<Suc m]"]
  show "pool_inv (linked_pool arr p)"
    unfolding q_def [symmetric] by (rule inv) (use ch dist blocks m in \<open>simp_all add: q n_def del: upt_Suc\<close>)
  have "free_blocks q = map (\<lambda>i. arr + i * b) [0..<Suc m]"
    by (rule inv) (use ch dist blocks m in \<open>simp_all add: q n_def del: upt_Suc\<close>)
  with blocks show "set (free_blocks (linked_pool arr p)) = pool_blocks (linked_pool arr p)"
    by (simp add: q_def)
qed

lemma IsValidPointer_iff:
  assumes "pool_layout p"
  shows "IsValidPointer p a \<longleftrightarrow> a \<in> pool_blocks p"
proof -
  note lay = pool_layout_facts [OF assms]
  have top: "usz_add (memory p) (usz_mul (num_blocks p) (block_size p)) =
      memory p + num_blocks p * block_size p"
    using assms lay(2) by (simp add: pool_layout_def usz_simps)
  show ?thesis
  proof (cases "memory p \<le> a \<and> a < memory p + num_blocks p * block_size p")
    case True
    then obtain d where a: "a = memory p + d" using le_Suc_ex by blast
    have "a < 2 ^ 64" using True assms by (simp add: pool_layout_def)
    with True have "IsValidPointer p a \<longleftrightarrow> d mod block_size p = 0"
      using a top by (simp add: IsValidPointer_def usz_sub_eq)
    also have "\<dots> \<longleftrightarrow> (\<exists>i<num_blocks p. d = i * block_size p)"
      using True a lay(1) by (auto simp: mod_eq_0_iff_dvd dvd_def mult.commute)
    finally show ?thesis
      by (auto simp: a pool_blocks_def block_addr_def)
  next
    case False
    have "i < num_blocks p \<Longrightarrow> i * block_size p < num_blocks p * block_size p" for i
      using lay(1) by simp
    with False show ?thesis
      by (auto simp: IsValidPointer_def top pool_blocks_def block_addr_def)
  qed
qed

lemma pool_frame [simp]:
  "pool_blocks (p\<lparr>free_list := f\<rparr>) = pool_blocks p"
  "pool_blocks (p\<lparr>allocated_count := c\<rparr>) = pool_blocks p"
  "pool_blocks (p\<lparr>next_ptr := nx\<rparr>) = pool_blocks p"
  "pool_layout (p\<lparr>free_list := f\<rparr>) = pool_layout p"
  "pool_layout (p\<lparr>allocated_count := c\<rparr>) = pool_layout p"
  "pool_layout (p\<lparr>next_ptr := nx\<rparr>) = pool_layout p"
  by (simp_all add: pool_blocks_def block_addr_def pool_layout_def)

lemma Allocate_empty:
  "pool_inv p \<Longrightarrow> free_blocks p = [] \<Longrightarrow> Allocate p = (0, p)"
  using pool_invD(2) [of p] by (simp add: Allocate_def)

lemma Allocate_Cons:
  assumes "pool_inv p" "free_blocks p = a # xs"
  shows "fst (Allocate p) = a" "pool_inv (snd (Allocate p))"
    "free_blocks (snd (Allocate p)) = xs" "pool_blocks (snd (Allocate p)) = pool_blocks p"
proof -
  note inv = pool_invD [OF assms(1), unfolded assms(2)]
  have eq: "Allocate p = (a, p\<lparr>free_list := next_ptr p a, allocated_count := allocated_count p + 1\<rparr>)"
    using inv(2,5) pool_layout_facts(3) [OF inv(1)] by (simp add: Allocate_def Let_def usz_simps)
  show "fst (Allocate p) = a" "pool_blocks (snd (Allocate p)) = pool_blocks p"
    by (simp_all add: eq)
  have "pool_layout (snd (Allocate p))" using inv(1) by (simp add: eq)
  note I = pool_invI [OF this, of xs]
  show "pool_inv (snd (Allocate p))" "free_blocks (snd (Allocate p)) = xs"
    by (rule I; use inv in \<open>simp add: eq\<close>)+
qed

lemma allocated_positive:
  assumes "pool_inv p" "a \<in> pool_blocks p" "a \<notin> set (free_blocks p)"
  shows "0 < allocated_count p"
proof -
  note inv = pool_invD [OF assms(1)]
  have "card (set (free_blocks p)) < card (pool_blocks p)"
    using inv(4) assms(2,3) pool_layout_facts(6) [OF inv(1)] by (intro psubset_card_mono) auto
  then show ?thesis
    using inv(3,5) pool_layout_facts(7) [OF inv(1)] by (simp add: distinct_card)
qed

lemma Deallocate_block:
  assumes "pool_inv p" "a \<in> pool_blocks p" "a \<notin> set (free_blocks p)"
  shows "Deallocate a p = ([], p\<lparr>next_ptr := (next_ptr p)(a := free_list p), free_list := a,
           allocated_count := allocated_count p - 1\<rparr>)"
    and "pool_inv (snd (Deallocate a p))"
    and "free_blocks (snd (Deallocate a p)) = a # free_blocks p"
proof -
  note inv = pool_invD [OF assms(1)] and lay = pool_layout_facts [OF pool_invD(1) [OF assms(1)]]
  have a0: "a \<noteq> 0" using assms(2) lay(5) by (cases "a = 0") simp_all
  note pos = allocated_positive [OF assms]
  show eq: "Deallocate a p = ([], p\<lparr>next_ptr := (next_ptr p)(a := free_list p), free_list := a,
           allocated_count := allocated_count p - 1\<rparr>)"
    using a0 pos assms(2) inv(5) lay(3) IsValidPointer_iff [OF inv(1)]
    by (simp add: Deallocate_def usz_simps)
  have "pool_layout (snd (Deallocate a p))" using inv(1) by (simp add: eq)
  note I = pool_invI [OF this, of "a # free_blocks p"]
  show "pool_inv (snd (Deallocate a p))" "free_blocks (snd (Deallocate a p)) = a # free_blocks p"
    by (rule I; use inv a0 pos assms(2,3) in \<open>simp add: eq\<close>)+
qed

lemma Deallocate_refused:
  assumes "pool_inv p" "a \<notin> pool_blocks p"
  shows "snd (Deallocate a p) = p"
  using assms(2) IsValidPointer_iff [OF pool_invD(1) [OF assms(1)]] by (simp add: Deallocate_def)

lemma Deallocate_blocks: "pool_blocks (snd (Deallocate a p)) = pool_blocks p"
  by (simp add: Deallocate_def)

lemma Allocate_blocks: "pool_blocks (snd (Allocate p)) = pool_blocks p"
  by (simp add: Allocate_def Let_def)

lemma Allocate_inv: "pool_inv p \<Longrightarrow> pool_inv (snd (Allocate p))"
  by (cases "free_blocks p") (simp_all add: Allocate_empty Allocate_Cons)

interpretation mp: block_allocator Allocate "\<lambda>a p. snd (Deallocate a p)" pool_inv
  "\<lambda>p. set (free_blocks p)" pool_blocks
proof (unfold_locales, goal_cases)
  case (1 p) then show ?case by (rule pool_layout_facts(6) [OF pool_invD(1)])
next
  case (2 p) then show ?case by (rule pool_layout_facts(5) [OF pool_invD(1)])
next
  case (3 p) then show ?case by (rule pool_invD(4))
next
  case (4 p) then show ?case by (simp add: Allocate_empty)
next
  case (5 p) then show ?case by (cases "free_blocks p") (simp_all add: Allocate_Cons(1))
next
  case (6 p) then show ?case
    using pool_invD(3) [of p]
    by (cases "free_blocks p") (simp_all add: Allocate_empty Allocate_Cons(1,3))
next
  case (7 p) then show ?case by (simp add: Allocate_blocks)
next
  case (8 p) then show ?case by (rule Allocate_inv)
next
  case (9 p a) then show ?case by (simp add: Deallocate_block(3))
next
  case (10 p a) then show ?case by (simp add: Deallocate_blocks)
next
  case (11 p a) then show ?case by (simp add: Deallocate_block(2))
qed

lemma client_write_inv:
  assumes "pool_inv p" "a \<notin> set (free_blocks p)"
  shows "pool_inv (p\<lparr>next_ptr := (next_ptr p)(a := v)\<rparr>)"
    and client_write_free: "free_blocks (p\<lparr>next_ptr := (next_ptr p)(a := v)\<rparr>) = free_blocks p"
  by (rule pool_invI [where xs = "free_blocks p"]; use pool_invD [OF assms(1)] assms(2) in simp)+

lemma pool_step_inv: "pool_step p q \<Longrightarrow> pool_inv p \<Longrightarrow> pool_inv q \<and> pool_blocks q = pool_blocks p"
  by (induction rule: pool_step.induct)
    (auto simp: Allocate_inv Allocate_blocks Deallocate_block(2) Deallocate_blocks
      Deallocate_refused client_write_inv(1))

lemma pool_blocks_num [simp]:
  "num_blocks (snd (Allocate p)) = num_blocks p" "num_blocks (snd (Deallocate a p)) = num_blocks p"
  by (simp_all add: Allocate_def Deallocate_def Let_def)

text \<open>The clients hold exactly the blocks that are not on the free list.\<close>

definition clients_inv :: "MemoryPool \<Rightarrow> nat set \<Rightarrow> bool" where
  "clients_inv q H \<longleftrightarrow> pool_inv q \<and> H = pool_blocks q - set (free_blocks q)"

lemma clients_invD:
  assumes "clients_inv q H"
  shows "pool_inv q" "allocated_count q = card H" "H \<subseteq> pool_blocks q"
proof -
  show inv: "pool_inv q" and sub: "H \<subseteq> pool_blocks q"
    using assms by (auto simp: clients_inv_def)
  have "card H = card (pool_blocks q) - card (set (free_blocks q))"
    using assms pool_invD(4) [OF inv] by (simp add: clients_inv_def card_Diff_subset)
  then show "allocated_count q = card H"
    using pool_invD(3,5) [OF inv] pool_layout_facts(7) [OF pool_invD(1) [OF inv]]
    by (simp add: distinct_card)
qed

lemma pool_clients_inv:
  assumes "pool_clients p q H" "pool_inv p" "set (free_blocks p) = pool_blocks p"
  shows "clients_inv q H \<and> num_blocks q = num_blocks p"
  using assms(1)
proof (induction rule: pool_clients.induct)
  case clients_start
  then show ?case using assms(2,3) by (simp add: clients_inv_def)
next
  case (clients_allocate q H a)
  then have inv: "pool_inv q" by (simp add: clients_inv_def)
  have "free_blocks q \<noteq> []" using clients_allocate.hyps(2,3) Allocate_empty [OF inv] by auto
  then obtain xs where "free_blocks q = a # xs"
    using Allocate_Cons(1) [OF inv] clients_allocate.hyps(2) by (cases "free_blocks q") auto
  with clients_allocate.IH Allocate_Cons [OF inv this] pool_invD(3,4) [OF inv] show ?case
    by (auto simp: clients_inv_def)
next
  case (clients_exhausted q H)
  then have inv: "pool_inv q" by (simp add: clients_inv_def)
  have "free_blocks q = []"
    using mp.alloc_null_iff [OF inv] clients_exhausted.hyps(2) by simp
  with clients_exhausted.IH Allocate_empty [OF inv] show ?case by simp
next
  case (clients_return q H a)
  then have a: "pool_inv q" "a \<in> pool_blocks q" "a \<notin> set (free_blocks q)"
    by (auto simp: clients_inv_def)
  with clients_return.IH Deallocate_block(2,3) [OF a] show ?case
    by (auto simp: clients_inv_def Deallocate_blocks)
next
  case (clients_refused q H a)
  then show ?case using Deallocate_refused [of q a] by (simp add: clients_inv_def)
next
  case (clients_write q H a v)
  then have a: "pool_inv q" "a \<notin> set (free_blocks q)" by (auto simp: clients_inv_def)
  with clients_write.IH client_write_inv(1) [OF a] client_write_free [OF a] show ?case
    by (simp add: clients_inv_def)
qed

text \<open>The documented contract of \<open>new char[n]\<close>: a non-null array inside the address space.\<close>

definition new_array_ok :: "(size_t \<Rightarrow> nat option) \<Rightarrow> bool" where
  "new_array_ok na \<longleftrightarrow> (\<forall>n a. na n = Some a \<longrightarrow> 0 < a \<and> a + n < 2 ^ 64)"

text \<open>The pool before the array is allocated, as the member initialisers leave it.\<close>

abbreviation blank_pool :: "size_t \<Rightarrow> size_t \<Rightarrow> MemoryPool" where
  "blank_pool b n \<equiv> \<lparr>block_size = b, num_blocks = n, allocated_count = 0, free_list = 0, memory = 0,
     next_ptr = (\<lambda>_. 0)\<rparr>"

lemma MemoryPool_new_eval:
  "0 < n \<Longrightarrow> MemoryPool_new na bs n = (case na (total_size (max bs 8) n) of
       None \<Rightarrow> Inl Bad_alloc | Some arr \<Rightarrow> Initialize arr (blank_pool (max bs 8) n))"
proof -
  have size: "(if bs < sizeof_Block then sizeof_Block else bs) = max bs 8"
    by (simp add: sizeof_Block_def max_def)
  assume "0 < n"
  then show ?thesis unfolding MemoryPool_new_def Let_def size by simp
qed

lemma MemoryPool_new_linked:
  assumes "na (total_size (max bs 8) n) = Some arr" "new_array_ok na" "max bs 8 * n < 2 ^ 64" "0 < n"
  shows "pool_layout ((blank_pool (max bs 8) n)\<lparr>memory := arr\<rparr>)"
    and "MemoryPool_new na bs n = Inr (linked_pool arr (blank_pool (max bs 8) n))"
proof -
  have "0 < arr" "arr + max bs 8 * n < 2 ^ 64"
    using assms by (auto simp: new_array_ok_def total_size_def usz_simps)
  then show lay: "pool_layout ((blank_pool (max bs 8) n)\<lparr>memory := arr\<rparr>)"
    using assms(4) by (simp add: pool_layout_def sizeof_Block_def mult.commute)
  show "MemoryPool_new na bs n = Inr (linked_pool arr (blank_pool (max bs 8) n))"
    using assms(1,4) Initialize_linked [OF lay] by (simp add: MemoryPool_new_eval)
qed

lemma MemoryPool_new_inv:
  assumes "MemoryPool_new na bs n = Inr p" "new_array_ok na" "max bs 8 * n < 2 ^ 64"
  shows "pool_inv p" "set (free_blocks p) = pool_blocks p" "allocated_count p = 0"
    "num_blocks p = n" "block_size p = max bs 8"
proof -
  have n: "0 < n"
    using assms(1) by (auto simp: MemoryPool_new_def Let_def split: if_splits)
  then obtain arr where arr: "na (total_size (max bs 8) n) = Some arr"
    using assms(1) by (auto simp: MemoryPool_new_eval split: option.splits)
  note new = MemoryPool_new_linked [OF arr assms(2,3) n]
  have p: "p = linked_pool arr (blank_pool (max bs 8) n)" using assms(1) new(2) by simp
  show "pool_inv p" "set (free_blocks p) = pool_blocks p"
    unfolding p by (rule Initialize_inv [OF new(1)])+
  show "allocated_count p = 0" "num_blocks p = n" "block_size p = max bs 8"
    by (simp_all add: p linked_pool_def)
qed

lemma MemoryPool_new_defined:
  assumes "new_array_ok na" "max bs 8 * n < 2 ^ 64"
  shows "MemoryPool_new na bs n \<noteq> Inl (Undefined_behaviour u)"
proof (cases "n = 0")
  case True
  then show ?thesis by (simp add: MemoryPool_new_def Let_def)
next
  case False
  then show ?thesis
    using MemoryPool_new_linked(2) [OF _ assms] 
    by (cases "na (total_size (max bs 8) n)") (simp_all add: MemoryPool_new_eval)
qed

text \<open>A product that does not fit: some block of the list lies outside the array.\<close>

lemma first_block_outside:
  fixes b n len :: nat
  assumes "2 ^ 64 \<le> b * n" "8 \<le> b" "b \<le> 2 ^ 63" "len \<le> 2 ^ 63"
  shows "\<exists>i<n. i * b < 2 ^ 64 \<and> len < i * b + 8"
proof -
  define i where "i = (len + b - 8) div b"
  have split: "i * b + (len + b - 8) mod b = len + b - 8" by (simp add: i_def)
  have "(len + b - 8) mod b < b" using assms(2) by simp
  then have lo: "len < i * b + 8" using split assms(2) by linarith
  have "i * b \<le> len + b - 8" using split by linarith
  with assms(2-4) have hi: "i * b < 2 ^ 64" by simp
  have "i * b < n * b" using hi assms(1) by (simp only: mult.commute)
  then have "i < n" by simp
  with lo hi show ?thesis by blast
qed

section \<open>Properties\<close>

text \<open>A pool of three 16-byte blocks at address 4096, for the witnesses.\<close>

definition demo_pool :: MemoryPool where
  "demo_pool = linked_pool 4096 (blank_pool 16 3)"

definition demo_new :: "size_t \<Rightarrow> nat option" where
  "demo_new n = (if n < 2 ^ 40 then Some 4096 else None)"

lemma demo_new_ok: "new_array_ok demo_new"
  by (auto simp: new_array_ok_def demo_new_def)

lemma demo_layout: "pool_layout ((blank_pool 16 3)\<lparr>memory := 4096\<rparr>)"
  by (simp add: pool_layout_def sizeof_Block_def)

lemma demo_pool_new: "MemoryPool_new demo_new 16 3 = Inr demo_pool"
  using Initialize_linked [OF demo_layout]
  by (simp add: MemoryPool_new_eval demo_pool_def demo_new_def total_size_def usz_mul_def)

lemma demo_fields: "memory demo_pool = 4096" "block_size demo_pool = 16" "num_blocks demo_pool = 3"
  by (simp_all add: demo_pool_def linked_pool_def)

lemma demo_pool_inv: "pool_inv demo_pool"
  unfolding demo_pool_def by (rule Initialize_inv(1) [OF demo_layout])

lemma demo_pool_eval:
  "free_blocks demo_pool = [4096, 4112, 4128]"
  "Allocate demo_pool = (4096, demo_pool\<lparr>free_list := 4112, allocated_count := 1\<rparr>)"
  by (simp_all add: demo_pool_def linked_pool_def usz_add_def free_blocks_def Allocate_def
      numeral_3_eq_3 numeral_2_eq_2 less_Suc_eq)

lemma demo_held:
  "pool_inv (snd (Allocate demo_pool))" "4096 \<in> pool_blocks (snd (Allocate demo_pool))"
  "4096 \<notin> set (free_blocks (snd (Allocate demo_pool)))"
proof -
  show "pool_inv (snd (Allocate demo_pool))" by (rule Allocate_inv [OF demo_pool_inv])
  show "4096 \<notin> set (free_blocks (snd (Allocate demo_pool)))"
    using Allocate_Cons(3) [OF demo_pool_inv demo_pool_eval(1)] by simp
  show "4096 \<in> pool_blocks (snd (Allocate demo_pool))"
    using pool_invD(4) [OF demo_pool_inv] by (simp add: Allocate_blocks demo_pool_eval(1))
qed

text \<open>
  C27: from the constructor on, every interleaving of allocations, returns of held blocks,
  refused returns and client writes into held blocks keeps the free list a duplicate-free
  chain of blocks of the pool, with the counter equal to the blocks handed out.
\<close>

theorem pool_reachable_inv:
  assumes "new_array_ok na" and "max bs 8 * n < 2 ^ 64"
    and "MemoryPool_new na bs n = Inr p" and "pool_reach p q"
  shows "pool_inv q \<and> pool_blocks q = pool_blocks p"
  using assms(4)
proof (induction rule: pool_reach.induct)
  case reach_start
  show ?case using MemoryPool_new_inv(1) [OF assms(3,1,2)] by simp
next
  case (reach_step q r)
  then show ?case using pool_step_inv by metis
qed

theorem pool_reachable_inv_witness:
  "pool_inv (snd (Allocate demo_pool)) \<and> pool_blocks (snd (Allocate demo_pool)) = pool_blocks demo_pool"
  by (rule pool_reachable_inv [OF demo_new_ok _ demo_pool_new])
    (auto intro: reach_start reach_step step_allocate)

text \<open>
  C28: a fresh pool of \<open>n\<close> blocks hands out exactly its \<open>n\<close> blocks, no block twice, and
  then answers \<open>nullptr\<close>.
\<close>

theorem pool_serves_all_blocks:
  assumes "new_array_ok na" and "max bs 8 * n < 2 ^ 64" and "MemoryPool_new na bs n = Inr p"
    and "alloc_many Allocate n p = (as, q)"
  shows "set as = pool_blocks p \<and> distinct as \<and> length as = n \<and> fst (Allocate q) = 0"
proof -
  note fresh = MemoryPool_new_inv [OF assms(3,1,2)]
  have "card (set (free_blocks p)) = n"
    using fresh pool_layout_facts(7) [OF pool_invD(1)] by simp
  with mp.alloc_all [OF fresh(1)] assms(4) fresh(2) show ?thesis
    by (metis distinct_card)
qed

theorem pool_serves_all_blocks_witness:
  "set (fst (alloc_many Allocate 3 demo_pool)) = pool_blocks demo_pool \<and>
   distinct (fst (alloc_many Allocate 3 demo_pool)) \<and>
   length (fst (alloc_many Allocate 3 demo_pool)) = 3 \<and>
   fst (Allocate (snd (alloc_many Allocate 3 demo_pool))) = 0"
  by (rule pool_serves_all_blocks [OF demo_new_ok _ demo_pool_new]) simp_all

text \<open>
  C29: every branch of \<open>Allocate\<close>. It answers \<open>nullptr\<close> and changes nothing exactly when no
  block is free; otherwise it hands out a non-null block of the pool that was free and no
  longer is, and the invariant is kept.
\<close>

theorem Allocate_correct:
  assumes "pool_inv p"
  shows "if free_blocks p = [] then Allocate p = (0, p)
         else fst (Allocate p) \<in> pool_blocks p \<and> fst (Allocate p) \<noteq> 0 \<and>
              set (free_blocks (snd (Allocate p))) = set (free_blocks p) - {fst (Allocate p)} \<and>
              fst (Allocate p) \<in> set (free_blocks p) \<and> pool_inv (snd (Allocate p))"
  using mp.alloc_empty [OF assms] mp.alloc_takes [OF assms] mp.free_alloc [OF assms]
    mp.invar_alloc [OF assms] mp.alloc_null_iff [OF assms] mp.free_blocks_sub [OF assms]
  by (auto simp del: fst_conv)

theorem Allocate_correct_witness:
  "fst (Allocate demo_pool) = 4096 \<and> 4096 \<in> pool_blocks demo_pool \<and>
   set (free_blocks (snd (Allocate demo_pool))) = {4112, 4128}"
  using Allocate_correct [OF demo_pool_inv] by (auto simp: demo_pool_eval)

text \<open>
  C31: \<open>IsFromPool\<close> accepts exactly the start addresses of the pool's blocks.
\<close>

theorem IsFromPool_iff_block:
  assumes "pool_inv p"
  shows "IsFromPool p a \<longleftrightarrow> (\<exists>i<num_blocks p. a = memory p + i * block_size p)"
  using IsValidPointer_iff [OF pool_invD(1) [OF assms]]
  by (auto simp: IsFromPool_def pool_blocks_def block_addr_def)

theorem IsFromPool_iff_block_witness:
  "IsFromPool demo_pool 4112 \<and> \<not> IsFromPool demo_pool 4113"
proof -
  have "\<exists>i<3. (4112 :: nat) = 4096 + i * 16" by (rule exI [of _ 1]) simp
  moreover have "\<not> (\<exists>i<3. (4113 :: nat) = 4096 + i * 16)" by presburger
  ultimately show ?thesis
    using IsFromPool_iff_block [OF demo_pool_inv] by (simp only: demo_fields simp_thms)
qed

text \<open>
  C30: returning a held block and allocating again gives the same block back and restores
  the free list and both counters (the list is last-in first-out).
\<close>

theorem Deallocate_Allocate_roundtrip:
  assumes "pool_inv p" "a \<in> pool_blocks p" "a \<notin> set (free_blocks p)"
  shows "fst (Allocate (snd (Deallocate a p))) = a \<and>
         free_blocks (snd (Allocate (snd (Deallocate a p)))) = free_blocks p \<and>
         GetAllocatedCount (snd (Allocate (snd (Deallocate a p)))) = GetAllocatedCount p \<and>
         GetAvailableCount (snd (Deallocate a p)) = GetAvailableCount p + 1"
proof -
  note de = Deallocate_block [OF assms] and al = Allocate_Cons [OF Deallocate_block(2,3) [OF assms]]
  note inv = pool_invD [OF assms(1)]
  have n: "num_blocks p < 2 ^ 64" by (rule pool_layout_facts(3) [OF inv(1)])
  have nb: "num_blocks (snd (Deallocate a p)) = num_blocks p"
    "num_blocks (snd (Allocate (snd (Deallocate a p)))) = num_blocks p"
    by (simp_all add: de(1) Allocate_def Let_def)
  have "allocated_count (snd (Allocate (snd (Deallocate a p)))) = allocated_count p"
    using pool_invD(5) [OF al(2)] al(3) inv(5) nb by simp
  moreover have "GetAvailableCount (snd (Deallocate a p)) = GetAvailableCount p + 1"
    using allocated_positive [OF assms] inv(5) n by (simp add: de(1) GetAvailableCount_def usz_simps)
  ultimately show ?thesis
    using al by (simp add: GetAllocatedCount_def)
qed

theorem Deallocate_Allocate_roundtrip_witness:
  "fst (Allocate (snd (Deallocate 4096 (snd (Allocate demo_pool))))) = 4096 \<and>
   free_blocks (snd (Allocate (snd (Deallocate 4096 (snd (Allocate demo_pool)))))) = [4112, 4128]"
  using Deallocate_Allocate_roundtrip [OF demo_held]
    Allocate_Cons(3) [OF demo_pool_inv demo_pool_eval(1)] by simp

text \<open>
  C32: the counters never lie. Whatever a pool's clients do from the constructor on, the
  allocated count is the number of blocks that \<open>Allocate\<close> has handed out and that have not
  been returned, the available count is the number of the others, and no count wraps.
\<close>

theorem pool_counts_exact:
  assumes "new_array_ok na" and "max bs 8 * n < 2 ^ 64"
    and "MemoryPool_new na bs n = Inr p" and "pool_clients p q H"
  shows "GetAllocatedCount q = card H \<and> GetAvailableCount q = n - card H \<and> card H \<le> n \<and>
         GetNumBlocks q = n"
proof -
  note fresh = MemoryPool_new_inv [OF assms(3,1,2)]
  have held: "clients_inv q H" and same: "num_blocks q = num_blocks p"
    using pool_clients_inv [OF assms(4)] fresh(1,2) by simp_all
  note lay = pool_layout_facts [OF pool_invD(1) [OF clients_invD(1) [OF held]]]
  have "allocated_count q = card H" using clients_invD(2) [OF held] by simp
  moreover have "card H \<le> n"
    using clients_invD(3) [OF held] lay(6,7) same fresh(4) by (metis card_mono)
  ultimately show ?thesis
    using same fresh(4) lay(3)
    by (simp add: GetAvailableCount_def GetAllocatedCount_def GetNumBlocks_def usz_simps)
qed

theorem pool_counts_exact_witness:
  "GetAllocatedCount (snd (Allocate demo_pool)) = 1 \<and> GetAvailableCount (snd (Allocate demo_pool)) = 2"
proof -
  have "pool_clients demo_pool (snd (Allocate demo_pool)) (insert 4096 {})"
    by (rule clients_allocate [OF clients_start]) (simp_all add: demo_pool_eval)
  from pool_counts_exact [OF demo_new_ok _ demo_pool_new this] show ?thesis by simp
qed

text \<open>
  C33: \<open>Deallocate\<close> does not notice that a block is already free. A block returned twice in
  a row is handed out to two clients, and when it was the only one in use the allocated
  count wraps around to $2^{64} - 1$.
\<close>

theorem double_free_not_detected:
  assumes "pool_inv p" "a \<in> pool_blocks p" "a \<notin> set (free_blocks p)" "allocated_count p = 1"
  shows "let q = snd (Deallocate a (snd (Deallocate a p))); r = snd (Allocate q)
         in fst (Allocate q) = a \<and> fst (Allocate r) = a \<and> GetAllocatedCount q = 2 ^ 64 - 1"
proof -
  note de = Deallocate_block [OF assms(1-3)]
  have a0: "a \<noteq> 0"
    using assms(2) pool_layout_facts(5) [OF pool_invD(1) [OF assms(1)]] by (cases "a = 0") simp_all
  have "IsValidPointer (snd (Deallocate a p)) a"
    using IsValidPointer_iff [OF pool_invD(1) [OF de(2)]] assms(2) Deallocate_blocks by simp
  then have "snd (Deallocate a (snd (Deallocate a p))) =
      (snd (Deallocate a p))\<lparr>next_ptr := (next_ptr p)(a := a), free_list := a,
        allocated_count := 2 ^ 64 - 1\<rparr>"
    using a0 assms(4) unfolding Deallocate_def [of a "snd (Deallocate a p)"]
    by (simp add: de(1) usz_sub_def)
  then show ?thesis
    using a0 by (simp add: Let_def Allocate_def GetAllocatedCount_def)
qed

theorem double_free_not_detected_witness:
  "let q = snd (Deallocate 4096 (snd (Deallocate 4096 (snd (Allocate demo_pool)))));
       r = snd (Allocate q)
   in fst (Allocate q) = 4096 \<and> fst (Allocate r) = 4096 \<and> GetAllocatedCount q = 2 ^ 64 - 1"
  by (rule double_free_not_detected [OF demo_held]) (simp add: demo_pool_eval(2))

text \<open>
  C34: the constructor does not check that \<open>block_size * num_blocks\<close> fits in \<open>size_t\<close>. Given an
  array of the size it asks for, it builds the pool exactly when the product fits; when the
  product wraps around, \<open>Initialize\<close> writes a next pointer outside the array, which is
  undefined behaviour. (No array is larger than $2^{63}$ bytes.)
\<close>

theorem pool_size_overflow:
  assumes "new_array_ok na" and "na (total_size (max bs 8) n) = Some arr" and "0 < n" and "n < 2 ^ 64"
    and "bs \<le> 2 ^ 63" and "total_size (max bs 8) n \<le> 2 ^ 63"
  shows "if max bs 8 * n < 2 ^ 64
         then \<exists>p. MemoryPool_new na bs n = Inr p \<and> pool_inv p
         else \<exists>u. MemoryPool_new na bs n = Inl (Undefined_behaviour u)"
proof (cases "max bs 8 * n < 2 ^ 64")
  case True
  then show ?thesis
    using MemoryPool_new_linked(2) [OF assms(2,1) True assms(3)]
      MemoryPool_new_inv(1) [OF _ assms(1) True] by auto
next
  case False
  let ?b = "max bs 8"
  have "2 ^ 64 \<le> ?b * n" and "?b \<le> 2 ^ 63" using False assms(5) by simp_all
  then obtain i where i: "i < n" "i * ?b < 2 ^ 64" "total_size ?b n < i * ?b + 8"
    using first_block_outside [OF _ _ _ assms(6), of ?b n] by (metis max.cobounded2)
  have "arr + total_size ?b n < 2 ^ 64" using assms(1,2) by (simp add: new_array_ok_def)
  then have arr: "arr < 2 ^ 64" by simp
  have "\<not> (arr \<le> (arr + i * ?b) mod 2 ^ 64 \<and> (arr + i * ?b) mod 2 ^ 64 + 8 \<le> arr + total_size ?b n)"
  proof (cases "arr + i * ?b < 2 ^ 64")
    case True
    then show ?thesis using i(3) by simp
  next
    case wrap: False
    then have "(arr + i * ?b) mod 2 ^ 64 = arr + i * ?b - 2 ^ 64"
      using arr i(2) by (simp add: mod_if)
    then show ?thesis using i(2) wrap by linarith
  qed
  then show ?thesis
    using Initialize_out_of_range [of i "blank_pool ?b n" arr] False i(1) assms(2-4) arr
    by (simp add: MemoryPool_new_eval)
qed

theorem pool_size_overflow_witness:
  "\<exists>u. MemoryPool_new demo_new 4096 (2 ^ 52) = Inl (Undefined_behaviour u)"
  using pool_size_overflow [OF demo_new_ok, of 4096 "2 ^ 52" 4096]
  by (simp add: demo_new_def total_size_def usz_mul_def)

end
