(* ===== verification/Util_ThreadPool.thy ===== *)
theory Util_ThreadPool
  imports Prelude
begin

text \<open>
  \<open>util::ThreadPool\<close> (\<open>src/util/thread_pool.h\<close>, \<open>src/util/thread_pool.cpp\<close>): a queue of
  tasks under a mutex, a condition variable and worker threads. The critical sections of
  the code are functions on the pool; an inductive relation interleaves them with the
  notifications, which happen after the mutex is released, and with the execution of
  tasks, which holds no lock.
\<close>

section \<open>State and operations\<close>

text \<open>
  Where a worker is in the loop of \<open>WorkerThread\<close>: about to take the mutex and evaluate
  the predicate of \<open>condition_.wait\<close>, blocked in it, running a task, or returned.
\<close>

datatype 'a worker = Ready | Sleeping | Running 'a | Exited

record 'a ThreadPool =
  workers :: "'a worker list"
  tasks :: "'a list"
  stop :: bool
  shutdown_requested :: bool
  num_threads :: size_t

definition thread_count :: "nat \<Rightarrow> size_t \<Rightarrow> size_t" where
  "thread_count hardware_concurrency n =
     (if n = 0 then usz_mul (if hardware_concurrency = 0 then 4 else hardware_concurrency) 2 else n)"

definition ThreadPool_new :: "nat \<Rightarrow> size_t \<Rightarrow> 'a ThreadPool" where
  "ThreadPool_new hardware_concurrency n =
     \<lparr>workers = replicate (thread_count hardware_concurrency n) Ready, tasks = [], stop = False,
      shutdown_requested = False, num_threads = thread_count hardware_concurrency n\<rparr>"

definition Enqueue :: "'a \<Rightarrow> ('a, 'z) ThreadPool_scheme \<Rightarrow> exn + ('a, 'z) ThreadPool_scheme" where
  "Enqueue t p =
     (if stop p \<or> shutdown_requested p
      then Inl (Runtime_error ''Cannot enqueue on stopped ThreadPool'')
      else Inr (p\<lparr>tasks := tasks p @ [t]\<rparr>))"

text \<open>
  The locked part of \<open>Shutdown\<close>; the first component says whether the call goes on to
  notify and join. \<open>joined\<close> is the condition under which its joins have returned.
\<close>

definition Shutdown_request :: "('a, 'z) ThreadPool_scheme \<Rightarrow> bool \<times> ('a, 'z) ThreadPool_scheme" where
  "Shutdown_request p =
     (if shutdown_requested p then (False, p) else (True, p\<lparr>shutdown_requested := True\<rparr>))"

definition joined :: "('a, 'z) ThreadPool_scheme \<Rightarrow> bool" where
  "joined p = list_all (\<lambda>w. w = Exited) (workers p)"

definition GetThreadCount :: "('a, 'z) ThreadPool_scheme \<Rightarrow> size_t" where
  "GetThreadCount p = num_threads p"

definition GetQueueSize :: "('a, 'z) ThreadPool_scheme \<Rightarrow> size_t" where
  "GetQueueSize p = length (tasks p)"

definition IsRunning :: "('a, 'z) ThreadPool_scheme \<Rightarrow> bool" where
  "IsRunning p = (\<not> stop p \<and> \<not> shutdown_requested p)"

definition wait_predicate :: "('a, 'z) ThreadPool_scheme \<Rightarrow> bool" where
  "wait_predicate p = (stop p \<or> shutdown_requested p \<or> tasks p \<noteq> [])"

text \<open>The locked part of one round of \<open>WorkerThread\<close>, by worker \<open>i\<close>.\<close>

definition WorkerThread :: "nat \<Rightarrow> ('a, 'z) ThreadPool_scheme \<Rightarrow> ('a, 'z) ThreadPool_scheme" where
  "WorkerThread i p =
     (if \<not> wait_predicate p then p\<lparr>workers := (workers p)[i := Sleeping]\<rparr>
      else if (stop p \<or> shutdown_requested p) \<and> tasks p = []
      then p\<lparr>workers := (workers p)[i := Exited]\<rparr>
      else p\<lparr>workers := (workers p)[i := Running (hd (tasks p))], tasks := tl (tasks p)\<rparr>)"

section \<open>Interleaved steps\<close>

text \<open>
  Beside the pool, the state has the notifications still to be sent and, as history, the
  tasks enqueued, taken by a worker and finished, each in order.
\<close>

record 'a tp_sys = "'a ThreadPool" +
  pending_one :: nat
  pending_all :: bool
  enqueued :: "'a list"
  started :: "'a list"
  finished :: "'a list"

definition tp_init :: "nat \<Rightarrow> size_t \<Rightarrow> 'a tp_sys" where
  "tp_init hw n = ThreadPool.extend (ThreadPool_new hw n)
     \<lparr>pending_one = 0, pending_all = False, enqueued = [], started = [], finished = []\<rparr>"

inductive tp_internal :: "'a tp_sys \<Rightarrow> 'a tp_sys \<Rightarrow> bool" where
  locked_part: "i < length (workers s) \<Longrightarrow> workers s ! i = Ready \<Longrightarrow>
    tp_internal s ((WorkerThread i s)\<lparr>started := started s @ take 1 (tasks s)\<rparr>)"
| run_task: "i < length (workers s) \<Longrightarrow> workers s ! i = Running t \<Longrightarrow>
    tp_internal s (s\<lparr>workers := (workers s)[i := Ready], finished := finished s @ [t]\<rparr>)"
| notify_one: "pending_one s = Suc k \<Longrightarrow> i < length (workers s) \<Longrightarrow> workers s ! i = Sleeping \<Longrightarrow>
    tp_internal s (s\<lparr>workers := (workers s)[i := Ready], pending_one := k\<rparr>)"
| notify_none: "pending_one s = Suc k \<Longrightarrow> Sleeping \<notin> set (workers s) \<Longrightarrow>
    tp_internal s (s\<lparr>pending_one := k\<rparr>)"
| notify_all: "pending_all s \<Longrightarrow>
    tp_internal s (s\<lparr>workers := map (\<lambda>w. if w = Sleeping then Ready else w) (workers s),
                     pending_all := False\<rparr>)"

inductive tp_external :: "'a tp_sys \<Rightarrow> 'a tp_sys \<Rightarrow> bool" where
  enqueue: "Enqueue t s = Inr s' \<Longrightarrow>
    tp_external s (s'\<lparr>pending_one := Suc (pending_one s), enqueued := enqueued s @ [t]\<rparr>)"
| shutdown: "Shutdown_request s = (True, s') \<Longrightarrow> tp_external s (s'\<lparr>pending_all := True\<rparr>)"
| spurious: "i < length (workers s) \<Longrightarrow> workers s ! i = Sleeping \<Longrightarrow>
    tp_external s (s\<lparr>workers := (workers s)[i := Ready]\<rparr>)"

inductive tp_reach :: "nat \<Rightarrow> size_t \<Rightarrow> 'a tp_sys \<Rightarrow> bool" for hw n where
  tp_start: "tp_reach hw n (tp_init hw n)"
| tp_int: "tp_reach hw n s \<Longrightarrow> tp_internal s t \<Longrightarrow> tp_reach hw n t"
| tp_ext: "tp_reach hw n s \<Longrightarrow> tp_external s t \<Longrightarrow> tp_reach hw n t"

section \<open>Invariant\<close>

fun held :: "'a worker \<Rightarrow> 'a multiset" where
  "held (Running t) = {#t#}"
| "held _ = {#}"

definition running :: "'a worker list \<Rightarrow> 'a multiset" where
  "running ws = (\<Sum>w\<in>#mset ws. held w)"

definition ready_count :: "'a worker list \<Rightarrow> nat" where
  "ready_count ws = count (mset ws) Ready"

definition tp_inv :: "'a tp_sys \<Rightarrow> bool" where
  "tp_inv s \<longleftrightarrow>
     \<not> stop s \<and> length (workers s) = num_threads s \<and>
     enqueued s = started s @ tasks s \<and>
     mset (started s) = mset (finished s) + running (workers s) \<and>
     (Sleeping \<in> set (workers s) \<longrightarrow> length (tasks s) \<le> pending_one s + ready_count (workers s)) \<and>
     (Sleeping \<in> set (workers s) \<longrightarrow> shutdown_requested s \<longrightarrow> pending_all s) \<and>
     (Exited \<in> set (workers s) \<longrightarrow> shutdown_requested s \<and> tasks s = [])"

fun weight :: "'a worker \<Rightarrow> nat" where
  "weight Exited = 0"
| "weight Sleeping = 1"
| "weight Ready = 2"
| "weight (Running t) = 3"

definition tp_measure :: "'a tp_sys \<Rightarrow> nat" where
  "tp_measure s = 2 * length (tasks s) + sum_list (map weight (workers s)) + 2 * pending_one s +
     (if pending_all s then Suc (length (workers s)) else 0)"

section \<open>Lemmas\<close>

lemma mset_update_split:
  assumes "i < length ws"
  obtains R where "mset ws = add_mset (ws ! i) R" "\<And>v. mset (ws[i := v]) = add_mset v R"
proof
  show "mset ws = add_mset (ws ! i) (mset ws - {#ws ! i#})" using assms by simp
  show "mset (ws[i := v]) = add_mset v (mset ws - {#ws ! i#})" for v
    using assms by (simp add: mset_update)
qed

lemma running_update:
  assumes "i < length ws"
  shows "running (ws[i := v]) + held (ws ! i) = running ws + held v"
  by (rule mset_update_split [OF assms]) (simp add: running_def)

lemma ready_count_update:
  assumes "i < length ws"
  shows "ready_count (ws[i := v]) + (if ws ! i = Ready then 1 else 0) =
     ready_count ws + (if v = Ready then 1 else 0)"
  by (rule mset_update_split [OF assms]) (simp add: ready_count_def)

lemma weight_update:
  "i < length ws \<Longrightarrow> sum_list (map weight (ws[i := v])) + weight (ws ! i) =
     sum_list (map weight ws) + weight v"
proof (induction ws arbitrary: i)
  case Nil
  then show ?case by simp
next
  case (Cons w ws)
  then show ?case by (cases i) (force simp: algebra_simps)+
qed

lemma set_update_keep: "i < length ws \<Longrightarrow> x \<in> set (ws[i := v]) \<Longrightarrow> x = v \<or> x \<in> set ws"
  using set_update_subset_insert by fastforce

lemma running_map_wake:
  "running (map (\<lambda>w. if w = Sleeping then Ready else w) ws) = running ws"
  unfolding running_def by (induction ws) auto

lemma weight_map_wake:
  "sum_list (map weight (map (\<lambda>w. if w = Sleeping then Ready else w) ws)) \<le>
     sum_list (map weight ws) + length ws"
  by (induction ws) auto

lemma tp_init_inv: "tp_inv (tp_init hw n)"
  by (simp add: tp_inv_def tp_init_def ThreadPool_new_def ThreadPool.defs running_def)

lemma WorkerThread_idle:
  "\<not> wait_predicate s \<Longrightarrow> WorkerThread i s = s\<lparr>workers := (workers s)[i := Sleeping]\<rparr>"
  by (simp add: WorkerThread_def)

lemma WorkerThread_exit:
  "shutdown_requested s \<Longrightarrow> tasks s = [] \<Longrightarrow> WorkerThread i s = s\<lparr>workers := (workers s)[i := Exited]\<rparr>"
  by (simp add: WorkerThread_def wait_predicate_def)

lemma WorkerThread_take:
  "tasks s = t # ts \<Longrightarrow> WorkerThread i s = s\<lparr>workers := (workers s)[i := Running t], tasks := ts\<rparr>"
  by (simp add: WorkerThread_def wait_predicate_def)

lemma locked_part_inv:
  assumes "tp_inv s" "i < length (workers s)" "workers s ! i = Ready"
  shows "tp_inv ((WorkerThread i s)\<lparr>started := started s @ take 1 (tasks s)\<rparr>)"
proof (cases "tasks s")
  case Nil
  note upd = running_update [OF assms(2)] ready_count_update [OF assms(2)] set_update_keep [OF assms(2)]
  show ?thesis
  proof (cases "shutdown_requested s")
    case True
    have "Sleeping \<in> set ((workers s)[i := Exited]) \<Longrightarrow> Sleeping \<in> set (workers s)"
      using upd(3) by fastforce
    with True Nil assms upd(1) [of Exited] show ?thesis
      by (auto simp: tp_inv_def WorkerThread_exit)
  next
    case False
    then have "\<not> wait_predicate s" using assms(1) Nil by (simp add: wait_predicate_def tp_inv_def)
    moreover have "Exited \<in> set ((workers s)[i := Sleeping]) \<Longrightarrow> Exited \<in> set (workers s)"
      using upd(3) by fastforce
    ultimately show ?thesis
      using False Nil assms upd(1) [of Sleeping] by (auto simp: tp_inv_def WorkerThread_idle)
  qed
next
  case (Cons t ts)
  have "Sleeping \<in> set ((workers s)[i := Running t]) \<Longrightarrow> Sleeping \<in> set (workers s)"
    "Exited \<in> set ((workers s)[i := Running t]) \<Longrightarrow> Exited \<in> set (workers s)"
    using set_update_keep [OF assms(2)] by fastforce+
  with Cons assms running_update [OF assms(2), of "Running t"]
    ready_count_update [OF assms(2), of "Running t"]
  show ?thesis by (auto simp: tp_inv_def WorkerThread_take)
qed

lemma wake_inv:
  assumes "tp_inv s" "i < length (workers s)" "workers s ! i = Sleeping"
    "pending_one s \<le> Suc k"
  shows "tp_inv (s\<lparr>workers := (workers s)[i := Ready], pending_one := k\<rparr>)"
proof -
  have "Sleeping \<in> set (workers s)" using assms(2,3) nth_mem by metis
  moreover have "Exited \<in> set ((workers s)[i := Ready]) \<Longrightarrow> Exited \<in> set (workers s)"
    using set_update_keep [OF assms(2)] by fastforce
  moreover have "ready_count ((workers s)[i := Ready]) = Suc (ready_count (workers s))"
    using ready_count_update [OF assms(2), of Ready] assms(3) by simp
  ultimately show ?thesis
    using assms running_update [OF assms(2), of Ready] by (auto simp: tp_inv_def)
qed

lemma tp_internal_inv: "tp_internal s t \<Longrightarrow> tp_inv s \<Longrightarrow> tp_inv t"
proof (induction rule: tp_internal.induct)
  case (locked_part i s)
  then show ?case by (intro locked_part_inv)
next
  case (run_task i s t)
  have "Sleeping \<in> set ((workers s)[i := Ready]) \<Longrightarrow> Sleeping \<in> set (workers s)"
    "Exited \<in> set ((workers s)[i := Ready]) \<Longrightarrow> Exited \<in> set (workers s)"
    using set_update_keep [OF run_task(1)] by fastforce+
  moreover have "ready_count ((workers s)[i := Ready]) = Suc (ready_count (workers s))"
    using ready_count_update [OF run_task(1), of Ready] run_task(2) by simp
  ultimately show ?case
    using run_task running_update [OF run_task(1), of Ready] by (auto simp: tp_inv_def)
next
  case (notify_one s k i)
  then show ?case by (simp add: wake_inv)
next
  case (notify_none s k)
  then show ?case by (auto simp: tp_inv_def)
next
  case (notify_all s)
  then show ?case by (auto simp: tp_inv_def running_map_wake split: if_splits)
qed

lemma tp_external_inv: "tp_external s t \<Longrightarrow> tp_inv s \<Longrightarrow> tp_inv t"
proof (induction rule: tp_external.induct)
  case (enqueue t s s')
  then show ?case by (auto simp: tp_inv_def Enqueue_def split: if_splits)
next
  case (shutdown s s')
  then show ?case by (auto simp: tp_inv_def Shutdown_request_def split: if_splits)
next
  case (spurious i s)
  then have "tp_inv (s\<lparr>workers := (workers s)[i := Ready], pending_one := pending_one s\<rparr>)"
    by (intro wake_inv) auto
  then show ?case by simp
qed

lemma tp_reach_inv: "tp_reach hw n s \<Longrightarrow> tp_inv s"
  by (induction rule: tp_reach.induct) (auto simp: tp_init_inv intro: tp_internal_inv tp_external_inv)

lemma tp_reach_threads: "tp_reach hw n s \<Longrightarrow> num_threads s = thread_count hw n"
  by (induction rule: tp_reach.induct)
    (auto simp: tp_init_def ThreadPool_new_def ThreadPool.defs WorkerThread_def Enqueue_def
      Shutdown_request_def elim!: tp_internal.cases tp_external.cases split: if_splits)

lemma thread_count_pos: "hw < 2 ^ 32 \<Longrightarrow> 0 < thread_count hw n"
  by (simp add: thread_count_def usz_mul_def)

lemma tp_reach_workers:
  assumes "tp_reach hw n s" "hw < 2 ^ 32"
  obtains w where "w \<in> set (workers s)"
proof -
  have "length (workers s) = thread_count hw n"
    using tp_reach_inv [OF assms(1)] tp_reach_threads [OF assms(1)] by (simp add: tp_inv_def)
  then have "workers s \<noteq> []" using thread_count_pos [OF assms(2), of n] by auto
  then show ?thesis using that by (cases "workers s") auto
qed

lemma stuck_workers:
  assumes "\<nexists>t. tp_internal s t" "w \<in> set (workers s)"
  shows "w = Sleeping \<or> w = Exited"
proof -
  obtain i where "i < length (workers s)" "workers s ! i = w"
    using assms(2) by (auto simp: in_set_conv_nth)
  then show ?thesis
    using assms(1) tp_internal.locked_part [of i s] tp_internal.run_task [of i s] by (cases w) auto
qed

lemma stuck_no_notify:
  assumes "\<nexists>t. tp_internal s t"
  shows "pending_one s = 0" "\<not> pending_all s"
proof -
  show "\<not> pending_all s" using assms tp_internal.notify_all by blast
  show "pending_one s = 0"
  proof (rule ccontr)
    assume "pending_one s \<noteq> 0"
    then obtain k where k: "pending_one s = Suc k" using not0_implies_Suc by blast
    then have "Sleeping \<in> set (workers s)" using assms tp_internal.notify_none by blast
    then show False using assms k tp_internal.notify_one by (metis in_set_conv_nth)
  qed
qed

lemma running_none: "(\<And>w. w \<in> set ws \<Longrightarrow> w = Sleeping \<or> w = Exited) \<Longrightarrow> running ws = {#}"
  unfolding running_def by (induction ws) (auto, metis held.simps(3) held.simps(4))

lemma tp_internal_decreases: "tp_internal s t \<Longrightarrow> tp_measure t < tp_measure s"
proof (induction rule: tp_internal.induct)
  case (locked_part i s)
  then show ?case
    using weight_update [OF locked_part(1), of Sleeping] weight_update [OF locked_part(1), of Exited]
      weight_update [OF locked_part(1), of "Running (hd (tasks s))"]
    by (cases "tasks s") (auto simp: tp_measure_def WorkerThread_def wait_predicate_def)
next
  case (run_task i s t)
  then show ?case
    using weight_update [OF run_task(1), of Ready] by (auto simp: tp_measure_def)
next
  case (notify_one s k i)
  then show ?case
    using weight_update [OF notify_one(2), of Ready] by (auto simp: tp_measure_def)
next
  case (notify_none s k)
  then show ?case by (simp add: tp_measure_def)
next
  case (notify_all s)
  then show ?case
    using weight_map_wake [of "workers s"] by (simp add: tp_measure_def)
qed

lemma shutdown_step:
  assumes "shutdown_requested s" "tp_internal s t \<or> tp_external s t"
  shows "shutdown_requested t \<and> enqueued t = enqueued s"
  using assms
  by (auto simp: WorkerThread_def Enqueue_def Shutdown_request_def
      elim!: tp_internal.cases tp_external.cases split: if_splits)

section \<open>Properties\<close>

text \<open>One worker that runs task 7 and is then shut down, for the witnesses.\<close>

definition demo_tp :: "nat worker \<Rightarrow> nat list \<Rightarrow> bool \<Rightarrow> nat \<Rightarrow> bool \<Rightarrow> nat list \<Rightarrow> nat list \<Rightarrow> nat list \<Rightarrow> nat tp_sys" where
  "demo_tp w ts sd one all enq st fin =
     \<lparr>workers = [w], tasks = ts, stop = False, shutdown_requested = sd, num_threads = 1,
      pending_one = one, pending_all = all, enqueued = enq, started = st, finished = fin\<rparr>"

lemma demo_tp_steps:
  "tp_init 0 1 = demo_tp Ready [] False 0 False [] [] []"
  "tp_external (demo_tp Ready [] False 0 False [] [] []) (demo_tp Ready [7] False 1 False [7] [] [])"
  "tp_internal (demo_tp Ready [7] False 1 False [7] [] []) (demo_tp (Running 7) [] False 1 False [7] [7] [])"
  "tp_internal (demo_tp (Running 7) [] False 1 False [7] [7] []) (demo_tp Ready [] False 1 False [7] [7] [7])"
  "tp_external (demo_tp Ready [] False 1 False [7] [7] [7]) (demo_tp Ready [] True 1 True [7] [7] [7])"
  "tp_internal (demo_tp Ready [] True 1 True [7] [7] [7]) (demo_tp Exited [] True 1 True [7] [7] [7])"
  "tp_internal (demo_tp Exited [] True 1 True [7] [7] [7]) (demo_tp Exited [] True 0 True [7] [7] [7])"
  "tp_internal (demo_tp Exited [] True 0 True [7] [7] [7]) (demo_tp Exited [] True 0 False [7] [7] [7])"
  using enqueue [of 7 "demo_tp Ready [] False 0 False [] [] []"]
    locked_part [of 0 "demo_tp Ready [7] False 1 False [7] [] []"]
    run_task [of 0 "demo_tp (Running 7) [] False 1 False [7] [7] []"]
    shutdown [of "demo_tp Ready [] False 1 False [7] [7] [7]"]
    locked_part [of 0 "demo_tp Ready [] True 1 True [7] [7] [7]"]
    notify_none [of "demo_tp Exited [] True 1 True [7] [7] [7]"]
    notify_all [of "demo_tp Exited [] True 0 True [7] [7] [7]"]
  by (simp_all add: demo_tp_def tp_init_def ThreadPool_new_def ThreadPool.defs thread_count_def
      Enqueue_def Shutdown_request_def WorkerThread_def wait_predicate_def)

lemma demo_tp_reach:
  "tp_reach 0 1 (demo_tp Ready [7] False 1 False [7] [] [])"
  "tp_reach 0 1 (demo_tp Exited [] True 0 False [7] [7] [7])"
proof -
  have "tp_reach 0 1 (demo_tp Ready [] False 0 False [] [] [])"
    using tp_start [where 'a = nat, of 0 1] by (simp only: demo_tp_steps(1))
  from tp_ext [OF this demo_tp_steps(2)]
  show r: "tp_reach 0 1 (demo_tp Ready [7] False 1 False [7] [] [])" .
  note r = tp_ext [OF tp_int [OF tp_int [OF r demo_tp_steps(3)] demo_tp_steps(4)] demo_tp_steps(5)]
  show "tp_reach 0 1 (demo_tp Exited [] True 0 False [7] [7] [7])"
    by (rule tp_int [OF tp_int [OF tp_int [OF r demo_tp_steps(6)] demo_tp_steps(7)] demo_tp_steps(8)])
qed

lemma demo_tp_stuck: "\<nexists>t. tp_internal (demo_tp Exited [] True 0 False [7] [7] [7]) t"
  by (auto simp: demo_tp_def elim!: tp_internal.cases)

text \<open>
  C22: in every interleaving of clients and workers the tasks are taken in the order in
  which they were enqueued, none is lost and none is taken twice: the enqueued tasks are
  the taken ones followed by the queue, and the taken ones are those finished and those
  that a worker is running now.
\<close>

theorem tp_fifo_no_loss:
  assumes "tp_reach hw n s"
  shows "enqueued s = started s @ tasks s \<and>
         mset (started s) = mset (finished s) + running (workers s)"
  using tp_reach_inv [OF assms] by (simp add: tp_inv_def)

theorem tp_fifo_no_loss_witness:
  "enqueued (demo_tp Ready [7] False 1 False [7] [] []) = [7] \<and>
   tasks (demo_tp Ready [7] False 1 False [7] [] []) = [7]"
  using tp_fifo_no_loss [OF demo_tp_reach(1)] by (simp add: demo_tp_def)

text \<open>
  C23: no wake-up is lost. A reachable state in which no worker and no notification can
  make a step (every worker blocked or returned) has an empty queue and every enqueued
  task finished; once a shutdown was requested, every worker has returned there.
\<close>

theorem tp_quiescent_all_done:
  assumes "tp_reach hw n s" "hw < 2 ^ 32" "\<nexists>t. tp_internal s t"
  shows "tasks s = [] \<and> mset (finished s) = mset (enqueued s) \<and> (shutdown_requested s \<longrightarrow> joined s)"
proof -
  note inv = tp_reach_inv [OF assms(1)] and still = stuck_workers [OF assms(3)] stuck_no_notify [OF assms(3)]
  obtain w where w: "w \<in> set (workers s)" by (rule tp_reach_workers [OF assms(1,2)])
  have "ready_count (workers s) = 0"
    unfolding ready_count_def using still(1) by (force simp: count_eq_zero_iff)
  then have ts: "tasks s = []"
    using still(1) [OF w] w inv still(2) by (auto simp: tp_inv_def)
  have "mset (finished s) = mset (enqueued s)"
    using inv ts running_none [OF still(1)] by (simp add: tp_inv_def)
  moreover have "shutdown_requested s \<longrightarrow> joined s"
    using inv still(1,3) by (auto simp: tp_inv_def joined_def list_all_iff)
  ultimately show ?thesis using ts by simp
qed

theorem tp_quiescent_all_done_witness:
  "joined (demo_tp Exited [] True 0 False [7] [7] [7]) \<and>
   mset (finished (demo_tp Exited [] True 0 False [7] [7] [7])) = {#7#}"
  using tp_quiescent_all_done [OF demo_tp_reach(2) _ demo_tp_stuck] by (simp add: demo_tp_def)

text \<open>
  C24: the pool cannot run forever on its own: without new tasks or spurious wake-ups the
  workers and notifications make only finitely many steps. As no wake-up is lost, every task
  that was enqueued is eventually finished and \<open>Shutdown\<close> returns.
\<close>

theorem tp_internal_terminates:
  "wfp (\<lambda>t s. tp_internal (s :: 'a tp_sys) t)"
  by (rule wfp_subset [OF wfp_if_convertible_to_nat [of "\<lambda>t s. tp_measure t < tp_measure s" tp_measure]])
    (auto intro: tp_internal_decreases)

text \<open>
  C25: when the joins of \<open>Shutdown\<close> have returned, the queue is empty and every task that
  was ever accepted has been run.
\<close>

theorem tp_shutdown_drains:
  assumes "tp_reach hw n s" "hw < 2 ^ 32" "joined s"
  shows "shutdown_requested s \<and> GetQueueSize s = 0 \<and> mset (finished s) = mset (enqueued s)"
proof -
  note inv = tp_reach_inv [OF assms(1)]
  have all: "w \<in> set (workers s) \<Longrightarrow> w = Exited" for w
    using assms(3) by (simp add: joined_def list_all_iff)
  have "Exited \<in> set (workers s)" by (rule tp_reach_workers [OF assms(1,2)]) (use all in auto)
  then show ?thesis
    using inv running_none [of "workers s"] all by (auto simp: tp_inv_def GetQueueSize_def)
qed

theorem tp_shutdown_drains_witness:
  "GetQueueSize (demo_tp Exited [] True 0 False [7] [7] [7]) = 0 \<and>
   mset (finished (demo_tp Exited [] True 0 False [7] [7] [7])) = {#7#}"
  using tp_shutdown_drains [OF demo_tp_reach(2)] by (simp add: demo_tp_def joined_def)

text \<open>
  C26: after a shutdown request the pool stays closed: however the workers and clients go
  on, \<open>Enqueue\<close> throws and leaves the queue alone, and no task is added.
\<close>

theorem tp_closed_after_shutdown:
  assumes "shutdown_requested s" "(\<lambda>a b. tp_internal a b \<or> tp_external a b)\<^sup>*\<^sup>* s t"
  shows "Enqueue x t = Inl (Runtime_error ''Cannot enqueue on stopped ThreadPool'') \<and>
         enqueued t = enqueued s \<and> \<not> IsRunning t"
proof -
  from assms(2) have "shutdown_requested t \<and> enqueued t = enqueued s"
    by (induction rule: rtranclp_induct) (use assms(1) shutdown_step in auto)
  then show ?thesis by (simp add: Enqueue_def IsRunning_def)
qed

theorem tp_closed_after_shutdown_witness:
  "Enqueue 8 (demo_tp Exited [] True 1 True [7] [7] [7]) =
     Inl (Runtime_error ''Cannot enqueue on stopped ThreadPool'')"
proof -
  have "shutdown_requested (demo_tp Ready [] True 1 True [7] [7] [7])" by (simp add: demo_tp_def)
  from tp_closed_after_shutdown [OF this, of "demo_tp Exited [] True 1 True [7] [7] [7]" 8]
  show ?thesis using demo_tp_steps(6) by blast
qed

end
