(* ===== verification/Util_Log.thy ===== *)
theory Util_Log
  imports Prelude
begin

text \<open>
  \<open>util::Logger\<close> (\<open>src/util/log.h\<close>, \<open>src/util/log.cpp\<close>): levelled messages, two buffers
  that producers and the log thread swap, and a log file per day. The operations are
  functions on the logger and its surroundings (files, console, error stream); the clock,
  which files can be opened and the state of the log directory are parameters.
\<close>

section \<open>Levels\<close>

datatype LogLevel = DEBUG | INFO | WARN | ERROR | FATAL

fun level_value :: "LogLevel \<Rightarrow> nat" where
  "level_value DEBUG = 0"
| "level_value INFO = 1"
| "level_value WARN = 2"
| "level_value ERROR = 3"
| "level_value FATAL = 4"

lemma level_value_inj: "level_value a = level_value b \<longleftrightarrow> a = b"
  by (cases a; cases b) simp_all

instantiation LogLevel :: linorder
begin

definition less_eq_LogLevel :: "LogLevel \<Rightarrow> LogLevel \<Rightarrow> bool" where
  "less_eq_LogLevel a b = (level_value a \<le> level_value b)"

definition less_LogLevel :: "LogLevel \<Rightarrow> LogLevel \<Rightarrow> bool" where
  "less_LogLevel a b = (level_value a < level_value b)"

instance
  by standard (auto simp: less_eq_LogLevel_def less_LogLevel_def level_value_inj [symmetric])

end

fun LevelToString :: "LogLevel \<Rightarrow> string" where
  "LevelToString DEBUG = ''DEBUG''"
| "LevelToString INFO = ''INFO''"
| "LevelToString WARN = ''WARN''"
| "LevelToString ERROR = ''ERROR''"
| "LevelToString FATAL = ''FATAL''"

section \<open>State\<close>

record LogBuffer =
  lb_buffer :: "char list"
  lb_size :: size_t

definition LogBuffer_new :: "size_t \<Rightarrow> LogBuffer" where
  "LogBuffer_new capacity = \<lparr>lb_buffer = replicate capacity (CHR 0x00), lb_size = 0\<rparr>"

record Logger =
  log_level :: LogLevel
  log_running :: bool
  active_buffer :: LogBuffer
  backup_buffer :: LogBuffer
  buffer_capacity :: size_t
  max_log_file_size :: size_t
  log_file :: "string option"
  current_date :: string
  log_directory :: string
  current_log_file_size :: size_t

text \<open>
  \<open>log_file\<close> is the path of the open stream. The surroundings: the contents of the files,
  what went to the console and to the error stream, and how often the clock was read.
\<close>

record logsys = Logger +
  files :: "string \<rightharpoonup> string"
  console :: string
  cerr :: "string list"
  clock_reads :: nat

record tm =
  tm_year :: nat
  tm_mon :: nat
  tm_mday :: nat
  tm_hour :: nat
  tm_min :: nat
  tm_sec :: nat

text \<open>
  The parameters: local time at the \<open>k\<close>-th reading of the clock, which paths open for
  appending, whether \<open>stat\<close> finds the log directory and \<open>mkdir\<close> succeeds, and the
  indeterminate bytes of a buffer that \<open>strftime\<close> could not fill.
\<close>

record log_env =
  local_time :: "nat \<Rightarrow> tm"
  can_open :: "string \<Rightarrow> bool"
  stat_ok :: bool
  mkdir_ok :: bool
  indeterminate :: string

section \<open>Operations\<close>

definition read_clock :: "log_env \<Rightarrow> logsys \<Rightarrow> tm \<times> logsys" where
  "read_clock E s = (local_time E (clock_reads s), s\<lparr>clock_reads := Suc (clock_reads s)\<rparr>)"

definition pad2 :: "nat \<Rightarrow> string" where
  "pad2 n = (if n < 10 then ''0'' @ nat_to_string n else nat_to_string n)"

definition date_string :: "tm \<Rightarrow> string" where
  "date_string t = nat_to_string (tm_year t) @ ''-'' @ pad2 (tm_mon t) @ ''-'' @ pad2 (tm_mday t)"

definition same_day :: "tm \<Rightarrow> tm \<Rightarrow> bool" where
  "same_day t u \<longleftrightarrow> tm_year t = tm_year u \<and> tm_mon t = tm_mon u \<and> tm_mday t = tm_mday u"

text \<open>\<open>strftime\<close> into a buffer of \<open>n\<close> bytes, which also has to hold the final zero byte.\<close>

definition strftime :: "log_env \<Rightarrow> nat \<Rightarrow> string \<Rightarrow> string" where
  "strftime E n str = (if length str < n then str else indeterminate E)"

definition FormatTime :: "log_env \<Rightarrow> tm \<Rightarrow> string" where
  "FormatTime E t = strftime E 26
     (date_string t @ '' '' @ pad2 (tm_hour t) @ '':'' @ pad2 (tm_min t) @ '':'' @ pad2 (tm_sec t))"

definition GetLogFilePath :: "log_env \<Rightarrow> logsys \<Rightarrow> string \<times> logsys" where
  "GetLogFilePath E s =
     (let (now, s1) = read_clock E s
      in (log_directory s1 @ ''tcp_server_'' @ strftime E 11 (date_string now) @ ''.log'', s1))"

definition CreateLogDirectory :: "log_env \<Rightarrow> logsys \<Rightarrow> logsys" where
  "CreateLogDirectory E s =
     (if \<not> stat_ok E \<and> \<not> mkdir_ok E
      then s\<lparr>cerr := cerr s @ [''Failed to create log directory: '' @ log_directory s]\<rparr>
      else s)"

text \<open>\<open>log_file_.open(path, std::ios::app)\<close> with the message on failure.\<close>

definition open_append :: "log_env \<Rightarrow> string \<Rightarrow> logsys \<Rightarrow> logsys" where
  "open_append E path s =
     (if can_open E path
      then s\<lparr>log_file := Some path,
             files := (files s)(path \<mapsto> (case files s path of None \<Rightarrow> [] | Some c \<Rightarrow> c))\<rparr>
      else s\<lparr>log_file := None, cerr := cerr s @ [''Failed to open log file: '' @ path]\<rparr>)"

definition InitLogFile :: "log_env \<Rightarrow> logsys \<Rightarrow> logsys" where
  "InitLogFile E s =
     (let (path, s1) = GetLogFilePath E s;
          s2 = open_append E path s1
      in s2\<lparr>current_log_file_size :=
              (if log_file s2 = None then 2 ^ 64 - 1
               else length (case files s2 path of None \<Rightarrow> [] | Some c \<Rightarrow> c))\<rparr>)"

definition Logger_Init :: "log_env \<Rightarrow> logsys \<Rightarrow> logsys" where
  "Logger_Init E s =
     (let s1 = InitLogFile E (CreateLogDirectory E s)
      in s1\<lparr>active_buffer := LogBuffer_new (buffer_capacity s1),
            backup_buffer := LogBuffer_new (buffer_capacity s1)\<rparr>)"

definition Logger_new :: "log_env \<Rightarrow> (string \<rightharpoonup> string) \<Rightarrow> logsys" where
  "Logger_new E fs = Logger_Init E
     \<lparr>log_level = DEBUG, log_running = True, active_buffer = LogBuffer_new 0,
      backup_buffer = LogBuffer_new 0, buffer_capacity = 1024 * 1024,
      max_log_file_size = 100 * 1024 * 1024, log_file = None, current_date = [],
      log_directory = ''./log/'', current_log_file_size = 0,
      files = fs, console = [], cerr = [], clock_reads = 0\<rparr>"

definition SetLogLevel :: "LogLevel \<Rightarrow> logsys \<Rightarrow> logsys" where
  "SetLogLevel level s = s\<lparr>log_level := level\<rparr>"

definition GetLogLevel :: "logsys \<Rightarrow> LogLevel" where
  "GetLogLevel s = log_level s"

definition SwapBuffers :: "logsys \<Rightarrow> logsys" where
  "SwapBuffers s =
     s\<lparr>backup_buffer := active_buffer s, active_buffer := (backup_buffer s)\<lparr>lb_size := 0\<rparr>\<rparr>"

text \<open>Waking the log thread is a step of the thread, so \<open>Flush\<close> is the swap alone.\<close>

definition Logger_Flush :: "logsys \<Rightarrow> logsys" where
  "Logger_Flush s = SwapBuffers s"

definition log_line :: "log_env \<Rightarrow> tm \<Rightarrow> string \<Rightarrow> LogLevel \<Rightarrow> string \<Rightarrow> string \<Rightarrow> int \<Rightarrow> string" where
  "log_line E now tid level message file line =
     ''['' @ FormatTime E now @ ''] '' @ ''[Thread:'' @ tid @ ''] '' @
     ''['' @ LevelToString level @ ''] '' @ ''['' @ file @ '':'' @ to_string line @ ''] '' @
     message @ [CHR 0x0A]"

definition buffer_full :: "LogBuffer \<Rightarrow> size_t \<Rightarrow> bool" where
  "buffer_full b n \<longleftrightarrow> length (lb_buffer b) < usz_add (lb_size b) n"

text \<open>The \<open>memcpy\<close>; a line beyond the end would lengthen the list, which the invariant below excludes.\<close>

definition buffer_append :: "LogBuffer \<Rightarrow> string \<Rightarrow> LogBuffer" where
  "buffer_append b str =
     b\<lparr>lb_buffer := blit (lb_buffer b) (lb_size b) str,
       lb_size := usz_add (lb_size b) (length str)\<rparr>"

text \<open>
  \<open>WriteLog\<close> up to the end of the block that holds the buffer's mutex; the flag says whether
  the line was appended.
\<close>

definition WriteLog_append ::
  "log_env \<Rightarrow> string \<Rightarrow> LogLevel \<Rightarrow> string \<Rightarrow> string \<Rightarrow> int \<Rightarrow> logsys \<Rightarrow> bool \<times> logsys" where
  "WriteLog_append E tid level message file line s =
     (if level < log_level s then (False, s)
      else
        let (now, s0) = read_clock E s;
            str = log_line E now tid level message file line;
            full = buffer_full (active_buffer s0) (length str);
            s1 = (if full then SwapBuffers s0 else s0)
        in if full \<and> buffer_full (active_buffer s1) (length str) then (False, s1)
           else (True, s1\<lparr>active_buffer := buffer_append (active_buffer s1) str\<rparr>))"

text \<open>
  The flush of a fatal message comes after the mutex is released: \<open>meanwhile\<close> is what the
  log thread does between the two.
\<close>

definition WriteLog :: "log_env \<Rightarrow> (logsys \<Rightarrow> logsys) \<Rightarrow> string \<Rightarrow> LogLevel \<Rightarrow> string \<Rightarrow> string \<Rightarrow> int \<Rightarrow>
    logsys \<Rightarrow> logsys" where
  "WriteLog E meanwhile tid level message file line s =
     (let (appended, s2) = WriteLog_append E tid level message file line s
      in if appended \<and> level = FATAL then Logger_Flush (meanwhile s2) else s2)"

text \<open>The levels below \<open>FATAL\<close> do not flush.\<close>

definition Logger_Debug :: "log_env \<Rightarrow> string \<Rightarrow> string \<Rightarrow> string \<Rightarrow> int \<Rightarrow> logsys \<Rightarrow> logsys" where
  "Logger_Debug E tid message file line s = WriteLog E id tid DEBUG message file line s"

definition Logger_Info :: "log_env \<Rightarrow> string \<Rightarrow> string \<Rightarrow> string \<Rightarrow> int \<Rightarrow> logsys \<Rightarrow> logsys" where
  "Logger_Info E tid message file line s = WriteLog E id tid INFO message file line s"

definition Logger_Warn :: "log_env \<Rightarrow> string \<Rightarrow> string \<Rightarrow> string \<Rightarrow> int \<Rightarrow> logsys \<Rightarrow> logsys" where
  "Logger_Warn E tid message file line s = WriteLog E id tid WARN message file line s"

definition Logger_Error :: "log_env \<Rightarrow> string \<Rightarrow> string \<Rightarrow> string \<Rightarrow> int \<Rightarrow> logsys \<Rightarrow> logsys" where
  "Logger_Error E tid message file line s = WriteLog E id tid ERROR message file line s"

definition RotateLogFile :: "log_env \<Rightarrow> logsys \<Rightarrow> logsys" where
  "RotateLogFile E s =
     (let (path, s1) = GetLogFilePath E (s\<lparr>log_file := None\<rparr>)
      in (open_append E path s1)\<lparr>current_log_file_size := 0\<rparr>)"

definition CheckLogFileSize :: "log_env \<Rightarrow> logsys \<Rightarrow> logsys" where
  "CheckLogFileSize E s =
     (if max_log_file_size s \<le> current_log_file_size s then RotateLogFile E s else s)"

definition WriteToFile :: "log_env \<Rightarrow> string \<Rightarrow> size_t \<Rightarrow> logsys \<Rightarrow> logsys" where
  "WriteToFile E buffer sz s =
     (if sz = 0 then s
      else
        let (now, s1) = read_clock E s;
            today = strftime E 11 (date_string now);
            s2 = (if today \<noteq> current_date s1 then (RotateLogFile E s1)\<lparr>current_date := today\<rparr> else s1);
            s3 = CheckLogFileSize E s2;
            dat = take sz buffer;
            s4 = (case log_file s3 of
                    None \<Rightarrow> s3
                  | Some path \<Rightarrow>
                      s3\<lparr>files := (files s3)(path \<mapsto>
                             (case files s3 path of None \<Rightarrow> [] | Some c \<Rightarrow> c) @ dat),
                         current_log_file_size := usz_add (current_log_file_size s3) sz\<rparr>)
        in s4\<lparr>console := console s4 @ dat\<rparr>)"

text \<open>
  \<open>LogThreadFunc\<close>: what a round of its loop does after the swap that follows the timed wait,
  the whole round, and what it does after the loop has ended.
\<close>

definition LogThread_write :: "log_env \<Rightarrow> logsys \<Rightarrow> logsys" where
  "LogThread_write E s =
     (if 0 < lb_size (backup_buffer s)
      then let s2 = WriteToFile E (lb_buffer (backup_buffer s)) (lb_size (backup_buffer s)) s
           in s2\<lparr>backup_buffer := (backup_buffer s2)\<lparr>lb_size := 0\<rparr>\<rparr>
      else s)"

definition LogThread_round :: "log_env \<Rightarrow> logsys \<Rightarrow> logsys" where
  "LogThread_round E s = LogThread_write E (SwapBuffers s)"

definition LogThread_exit :: "log_env \<Rightarrow> logsys \<Rightarrow> logsys" where
  "LogThread_exit E s =
     (let s1 = (if 0 < lb_size (active_buffer s)
                then WriteToFile E (lb_buffer (active_buffer s)) (lb_size (active_buffer s)) s else s)
      in if 0 < lb_size (backup_buffer s1)
         then WriteToFile E (lb_buffer (backup_buffer s1)) (lb_size (backup_buffer s1)) s1 else s1)"

text \<open>The steps of the log thread that other threads can come between.\<close>

datatype thread_act = Act_swap | Act_write | Act_exit

fun run_act :: "log_env \<Rightarrow> thread_act \<Rightarrow> logsys \<Rightarrow> logsys" where
  "run_act E Act_swap s = SwapBuffers s"
| "run_act E Act_write s = LogThread_write E s"
| "run_act E Act_exit s = LogThread_exit E s"

abbreviation thread_acts :: "log_env \<Rightarrow> thread_act list \<Rightarrow> logsys \<Rightarrow> logsys" where
  "thread_acts E as \<equiv> fold (run_act E) as"

text \<open>
  \<open>Shutdown\<close>: clear the flag and flush; the log thread is then joined and the file closed.
  The log thread runs the steps \<open>g1\<close> between the flag and the flush and the steps \<open>g2\<close> from
  there until it returns.
\<close>

definition Logger_Shutdown :: "log_env \<Rightarrow> thread_act list \<Rightarrow> thread_act list \<Rightarrow> logsys \<Rightarrow> logsys" where
  "Logger_Shutdown E g1 g2 s =
     (thread_acts E g2 (Logger_Flush (thread_acts E g1 (s\<lparr>log_running := False\<rparr>))))\<lparr>log_file := None\<rparr>"

definition Logger_delete :: "log_env \<Rightarrow> thread_act list \<Rightarrow> thread_act list \<Rightarrow> logsys \<Rightarrow> logsys" where
  "Logger_delete E g1 g2 s = Logger_Shutdown E g1 g2 s"

text \<open>
  \<open>Fatal\<close>, with the steps of the log thread before the flush of \<open>WriteLog\<close> (\<open>g0\<close>), between
  that flush and the flag (\<open>g1\<close>), between the flag and the second flush (\<open>g2\<close>) and until the
  join (\<open>g3\<close>). \<open>std::abort\<close> then ends the program.
\<close>

definition Logger_Fatal :: "log_env \<Rightarrow> thread_act list \<Rightarrow> thread_act list \<Rightarrow> thread_act list \<Rightarrow>
    thread_act list \<Rightarrow> string \<Rightarrow> string \<Rightarrow> string \<Rightarrow> int \<Rightarrow> logsys \<Rightarrow> logsys" where
  "Logger_Fatal E g0 g1 g2 g3 tid message file line s =
     Logger_Shutdown E g2 g3
       (thread_acts E g1 (WriteLog E (thread_acts E g0) tid FATAL message file line s))"

section \<open>Invariant\<close>

definition buf_content :: "LogBuffer \<Rightarrow> string" where
  "buf_content b = take (lb_size b) (lb_buffer b)"

definition buf_inv :: "size_t \<Rightarrow> LogBuffer \<Rightarrow> bool" where
  "buf_inv cap b \<longleftrightarrow> length (lb_buffer b) = cap \<and> lb_size b \<le> cap"

definition log_inv :: "logsys \<Rightarrow> bool" where
  "log_inv s \<longleftrightarrow> buf_inv (buffer_capacity s) (active_buffer s) \<and>
     buf_inv (buffer_capacity s) (backup_buffer s) \<and> buffer_capacity s < 2 ^ 63"

text \<open>
  Steps of the logging system: a message from any thread (a \<open>std::string\<close> is shorter than
  $2^{63}$), a flush, a change of level, a round of the log thread or one of the steps it is
  made of, and the order to stop. \<open>WriteLog\<close> of a fatal message is two steps.
\<close>

inductive log_step :: "log_env \<Rightarrow> logsys \<Rightarrow> logsys \<Rightarrow> bool" for E where
  log_write: "length (log_line E (local_time E (clock_reads s)) tid level message file line) < 2 ^ 63 \<Longrightarrow>
    log_step E s (snd (WriteLog_append E tid level message file line s))"
| log_flush: "log_step E s (Logger_Flush s)"
| log_set_level: "log_step E s (SetLogLevel level s)"
| log_round: "log_running s \<Longrightarrow> log_step E s (LogThread_round E s)"
| log_act: "log_step E s (run_act E a s)"
| log_stop: "log_step E s (s\<lparr>log_running := False\<rparr>)"

definition contents :: "logsys \<Rightarrow> string \<Rightarrow> string" where
  "contents s path = (case files s path of None \<Rightarrow> [] | Some c \<Rightarrow> c)"

type_synonym log_req = "string \<times> LogLevel \<times> string \<times> string \<times> int"

fun write_all :: "log_env \<Rightarrow> log_req list \<Rightarrow> logsys \<Rightarrow> logsys" where
  "write_all E [] s = s"
| "write_all E ((tid, level, message, file, line) # rs) s =
     write_all E rs (WriteLog E id tid level message file line s)"

text \<open>The lines that the accepted messages make, from clock reading \<open>k\<close> on.\<close>

fun accepted_lines :: "log_env \<Rightarrow> LogLevel \<Rightarrow> nat \<Rightarrow> log_req list \<Rightarrow> string" where
  "accepted_lines E lv k [] = []"
| "accepted_lines E lv k ((tid, level, message, file, line) # rs) =
     (if level < lv then accepted_lines E lv k rs
      else log_line E (local_time E k) tid level message file line @ accepted_lines E lv (Suc k) rs)"

section \<open>Lemmas\<close>

lemma buf_inv_LogBuffer_new: "buf_inv n (LogBuffer_new n)"
  by (simp add: buf_inv_def LogBuffer_new_def)

lemma buffer_append_inv:
  assumes "buf_inv cap b" "\<not> buffer_full b (length str)" "cap < 2 ^ 63" "length str < 2 ^ 63"
  shows "buf_inv cap (buffer_append b str)" "buf_content (buffer_append b str) = buf_content b @ str"
proof -
  have le: "lb_size b + length str \<le> length (lb_buffer b)"
    using assms by (simp add: buf_inv_def buffer_full_def usz_simps)
  then have "usz_add (lb_size b) (length str) = lb_size b + length str"
    using assms by (simp add: buf_inv_def usz_simps)
  with le assms(1) show "buf_inv cap (buffer_append b str)"
    "buf_content (buffer_append b str) = buf_content b @ str"
    by (simp_all add: buffer_append_def buf_inv_def buf_content_def buf_simps)
qed

lemmas rotate_defs = RotateLogFile_def GetLogFilePath_def read_clock_def open_append_def Let_def

lemma RotateLogFile_eval:
  "log_file (RotateLogFile E s) =
     (if can_open E (fst (GetLogFilePath E s)) then Some (fst (GetLogFilePath E s)) else None)"
  "can_open E (fst (GetLogFilePath E s)) \<Longrightarrow> files s (fst (GetLogFilePath E s)) = Some c \<Longrightarrow>
     files (RotateLogFile E s) = files s"
  "current_log_file_size (RotateLogFile E s) = 0"
  by (auto simp: rotate_defs)

lemma RotateLogFile_frame [simp]:
  "active_buffer (RotateLogFile E s) = active_buffer s"
  "backup_buffer (RotateLogFile E s) = backup_buffer s"
  "buffer_capacity (RotateLogFile E s) = buffer_capacity s"
  "console (RotateLogFile E s) = console s"
  by (simp_all add: rotate_defs)

lemma CheckLogFileSize_frame [simp]:
  "active_buffer (CheckLogFileSize E s) = active_buffer s"
  "backup_buffer (CheckLogFileSize E s) = backup_buffer s"
  "buffer_capacity (CheckLogFileSize E s) = buffer_capacity s"
  "console (CheckLogFileSize E s) = console s"
  by (simp_all add: CheckLogFileSize_def)

lemma WriteToFile_frame [simp]:
  "active_buffer (WriteToFile E buf n s) = active_buffer s"
  "backup_buffer (WriteToFile E buf n s) = backup_buffer s"
  "buffer_capacity (WriteToFile E buf n s) = buffer_capacity s"
  by (simp_all add: WriteToFile_def read_clock_def Let_def split: option.split)

lemma WriteToFile_console:
  "console (WriteToFile E buf n s) = console s @ take n buf"
  by (simp add: WriteToFile_def read_clock_def Let_def split: option.split)

text \<open>Opening a file never changes the content of any file; the write appends to the open one.\<close>

lemma RotateLogFile_contents [simp]: "contents (RotateLogFile E s) = contents s"
  by (rule ext) (simp add: contents_def rotate_defs split: option.split)

lemma CheckLogFileSize_contents [simp]: "contents (CheckLogFileSize E s) = contents s"
  by (simp add: CheckLogFileSize_def)

lemma contents_frame [simp]:
  "contents (s\<lparr>current_date := d\<rparr>) = contents s" "contents (s\<lparr>clock_reads := k\<rparr>) = contents s"
  "contents (s\<lparr>active_buffer := a\<rparr>) = contents s" "contents (s\<lparr>backup_buffer := b\<rparr>) = contents s"
  "contents (s\<lparr>log_running := r\<rparr>) = contents s" "contents (s\<lparr>log_file := lf\<rparr>) = contents s"
  "contents (s\<lparr>console := c\<rparr>) = contents s"
  by (simp_all add: contents_def fun_eq_iff)

definition put_data :: "string \<Rightarrow> size_t \<Rightarrow> logsys \<Rightarrow> logsys" where
  "put_data dat sz s = (case log_file s of
       None \<Rightarrow> s
     | Some path \<Rightarrow> s\<lparr>files := (files s)(path \<mapsto> (case files s path of None \<Rightarrow> [] | Some c \<Rightarrow> c) @ dat),
                      current_log_file_size := usz_add (current_log_file_size s) sz\<rparr>)"

lemma put_data_contents:
  "contents (put_data dat sz s) q = contents s q @ (if log_file s = Some q then dat else [])"
  "log_file (put_data dat sz s) = log_file s"
  by (auto simp: put_data_def contents_def split: option.split)

lemma WriteToFile_put:
  assumes "0 < n"
  obtains s3 where "WriteToFile E buf n s = (put_data (take n buf) n s3)\<lparr>console := console s @ take n buf\<rparr>"
    and "contents s3 = contents s"
proof -
  let ?today = "strftime E 11 (date_string (local_time E (clock_reads s)))"
  let ?s1 = "s\<lparr>clock_reads := Suc (clock_reads s)\<rparr>"
  let ?s2 = "if ?today \<noteq> current_date s then (RotateLogFile E ?s1)\<lparr>current_date := ?today\<rparr> else ?s1"
  have "WriteToFile E buf n s =
      (put_data (take n buf) n (CheckLogFileSize E ?s2))\<lparr>console := console s @ take n buf\<rparr>"
    using assms by (simp add: WriteToFile_def put_data_def read_clock_def Let_def split: option.split)
  then show ?thesis by (rule that) simp
qed

lemma WriteToFile_contents:
  "contents (WriteToFile E buf n s) q =
     contents s q @ (if log_file (WriteToFile E buf n s) = Some q then take n buf else [])"
proof (cases "n = 0")
  case True
  then show ?thesis by (simp add: WriteToFile_def)
next
  case False
  then obtain s3 where "WriteToFile E buf n s =
      (put_data (take n buf) n s3)\<lparr>console := console s @ take n buf\<rparr>" "contents s3 = contents s"
    using WriteToFile_put by blast
  then show ?thesis by (simp add: put_data_contents)
qed

lemma SwapBuffers_inv: "log_inv s \<Longrightarrow> log_inv (SwapBuffers s)"
  by (simp add: log_inv_def SwapBuffers_def buf_inv_def)

lemma WriteToFile_inv: "log_inv (WriteToFile E buf n s) = log_inv s"
  by (simp add: log_inv_def)

lemma LogThread_write_inv: "log_inv s \<Longrightarrow> log_inv (LogThread_write E s)"
  by (simp add: LogThread_write_def Let_def log_inv_def buf_inv_def)

lemma LogThread_round_inv: "log_inv s \<Longrightarrow> log_inv (LogThread_round E s)"
  by (simp add: LogThread_round_def LogThread_write_inv SwapBuffers_inv)

lemma run_act_inv: "log_inv s \<Longrightarrow> log_inv (run_act E a s)"
  by (cases a) (simp_all add: LogThread_write_inv SwapBuffers_inv LogThread_exit_def WriteToFile_inv)

lemma log_inv_frame [simp]:
  "log_inv (s\<lparr>clock_reads := k\<rparr>) = log_inv s" "log_inv (s\<lparr>log_level := lv\<rparr>) = log_inv s"
  "log_inv (s\<lparr>log_running := b\<rparr>) = log_inv s"
  by (simp_all add: log_inv_def)

lemma WriteLog_append_inv:
  assumes "log_inv s"
    and "length (log_line E (local_time E (clock_reads s)) tid level message file line) < 2 ^ 63"
  shows "log_inv (snd (WriteLog_append E tid level message file line s))"
proof -
  let ?str = "log_line E (local_time E (clock_reads s)) tid level message file line"
  have app: "log_inv (t\<lparr>active_buffer := buffer_append (active_buffer t) ?str\<rparr>)"
    if "log_inv t" "\<not> buffer_full (active_buffer t) (length ?str)" for t
    using that buffer_append_inv(1) [OF _ that(2) _ assms(2)] by (simp add: log_inv_def)
  have clk: "log_inv (s\<lparr>clock_reads := Suc (clock_reads s)\<rparr>)"
    using assms(1) by simp
  show ?thesis
    using app [OF clk] app [OF SwapBuffers_inv [OF clk]] clk SwapBuffers_inv [OF clk] assms(1)
    by (auto simp: WriteLog_append_def read_clock_def Let_def)
qed

lemma log_step_inv: "log_step E s t \<Longrightarrow> log_inv s \<Longrightarrow> log_inv t"
proof (induction rule: log_step.induct)
  case (log_write s tid level message src line)
  then show ?case by (simp add: WriteLog_append_inv)
qed (simp_all add: Logger_Flush_def SwapBuffers_inv LogThread_round_inv run_act_inv
      SetLogLevel_def log_inv_frame)

lemma WriteLog_append_fits:
  assumes "log_inv s" "\<not> level < log_level s"
    and "lb_size (active_buffer s) +
         length (log_line E (local_time E (clock_reads s)) tid level message file line) \<le> buffer_capacity s"
  shows "WriteLog_append E tid level message file line s =
     (True, s\<lparr>clock_reads := Suc (clock_reads s), active_buffer := buffer_append (active_buffer s)
         (log_line E (local_time E (clock_reads s)) tid level message file line)\<rparr>)"
  using assms
  by (simp add: WriteLog_append_def read_clock_def Let_def buffer_full_def log_inv_def buf_inv_def usz_simps)

lemma append_line:
  assumes "log_inv s" "lb_size (active_buffer s) + length str \<le> buffer_capacity s"
  shows "buf_inv (buffer_capacity s) (buffer_append (active_buffer s) str)"
    and "buf_content (buffer_append (active_buffer s) str) = buf_content (active_buffer s) @ str"
    and "lb_size (buffer_append (active_buffer s) str) = lb_size (active_buffer s) + length str"
proof -
  have cap: "buffer_capacity s < 2 ^ 63" and bi: "buf_inv (buffer_capacity s) (active_buffer s)"
    using assms(1) by (simp_all add: log_inv_def)
  have nf: "\<not> buffer_full (active_buffer s) (length str)" and small: "length str < 2 ^ 63"
    using assms(2) bi cap by (simp_all add: buffer_full_def buf_inv_def usz_simps)
  show "buf_inv (buffer_capacity s) (buffer_append (active_buffer s) str)"
    "buf_content (buffer_append (active_buffer s) str) = buf_content (active_buffer s) @ str"
    using buffer_append_inv [OF bi nf cap small] by simp_all
  show "lb_size (buffer_append (active_buffer s) str) = lb_size (active_buffer s) + length str"
    using assms(2) cap by (simp add: buffer_append_def usz_simps)
qed

lemma write_all_content:
  assumes "log_inv s" "\<forall>(tid, level, r) \<in> set rs. level \<noteq> FATAL"
    and "lb_size (active_buffer s) + length (accepted_lines E (log_level s) (clock_reads s) rs)
         \<le> buffer_capacity s"
  shows "log_inv (write_all E rs s) \<and>
    buf_content (active_buffer (write_all E rs s)) =
      buf_content (active_buffer s) @ accepted_lines E (log_level s) (clock_reads s) rs \<and>
    backup_buffer (write_all E rs s) = backup_buffer s \<and>
    console (write_all E rs s) = console s \<and> files (write_all E rs s) = files s"
  using assms
proof (induction rs arbitrary: s)
  case Nil
  then show ?case by simp
next
  case (Cons r rs)
  obtain tid level message src line where r: "r = (tid, level, message, src, line)"
    by (cases r) auto
  show ?case
  proof (cases "level < log_level s")
    case True
    with Cons r show ?thesis by (simp add: WriteLog_def WriteLog_append_def)
  next
    case False
    let ?str = "log_line E (local_time E (clock_reads s)) tid level message src line"
    let ?s = "s\<lparr>clock_reads := Suc (clock_reads s), active_buffer := buffer_append (active_buffer s) ?str\<rparr>"
    have fit: "lb_size (active_buffer s) + length ?str \<le> buffer_capacity s"
      using Cons.prems(3) False by (simp add: r)
    have w: "WriteLog E id tid level message src line s = ?s"
      using WriteLog_append_fits [OF Cons.prems(1) False fit] Cons.prems(2) r by (simp add: WriteLog_def)
    note app = append_line [OF Cons.prems(1) fit]
    have inv: "log_inv ?s" using Cons.prems(1) app(1) by (simp add: log_inv_def)
    show ?thesis
      using Cons.IH [OF inv] Cons.prems(2,3) False app(2,3) by (simp add: r w)
  qed
qed

lemma LogThread_round_console:
  "log_inv s \<Longrightarrow> console (LogThread_round E s) = console s @ buf_content (active_buffer s) \<and>
     buf_content (active_buffer (LogThread_round E s)) = [] \<and>
     buf_content (backup_buffer (LogThread_round E s)) = []"
  by (simp add: LogThread_round_def LogThread_write_def SwapBuffers_def Let_def WriteToFile_console
      buf_content_def)

lemma LogThread_round_contents:
  "contents (LogThread_round E s) q = contents s q @
     (if log_file (LogThread_round E s) = Some q then buf_content (active_buffer s) else [])"
  by (simp add: LogThread_round_def LogThread_write_def SwapBuffers_def Let_def WriteToFile_contents
      buf_content_def)

text \<open>Nothing buffered: no step of the log thread and no swap changes the console or a file.\<close>

definition drained :: "string \<Rightarrow> (string \<rightharpoonup> string) \<Rightarrow> logsys \<Rightarrow> bool" where
  "drained con fs t \<longleftrightarrow> lb_size (active_buffer t) = 0 \<and> lb_size (backup_buffer t) = 0 \<and>
     console t = con \<and> files t = fs"

lemma drained_step:
  "drained con fs t \<Longrightarrow> drained con fs (run_act E a t)"
  "drained con fs t \<Longrightarrow> drained con fs (SwapBuffers t)"
  "drained con fs t \<Longrightarrow> drained con fs (t\<lparr>log_running := r\<rparr>)"
  by (cases a) (simp_all add: drained_def SwapBuffers_def LogThread_write_def LogThread_exit_def Let_def)

lemma drained_acts: "drained con fs t \<Longrightarrow> drained con fs (thread_acts E as t)"
  by (induction as arbitrary: t) (simp_all add: drained_step)

text \<open>A swap after a flush drains both buffers.\<close>

lemma swap_drains:
  "lb_size (active_buffer t) = 0 \<Longrightarrow> drained (console t) (files t) (SwapBuffers t)"
  by (simp add: drained_def SwapBuffers_def)

lemma FATAL_not_less: "\<not> FATAL < level"
  by (cases level) (simp_all add: less_LogLevel_def)

text \<open>The console only grows.\<close>

lemma console_frame [simp]:
  "console (SwapBuffers s) = console s" "console (s\<lparr>log_running := r\<rparr>) = console s"
  by (simp_all add: SwapBuffers_def)

lemma run_act_console: "\<exists>more. console (run_act E a s) = console s @ more"
  by (cases a) (auto simp: LogThread_write_def LogThread_exit_def Let_def WriteToFile_console)

lemma thread_acts_console: "\<exists>more. console (thread_acts E as s) = console s @ more"
proof (induction as arbitrary: s)
  case (Cons a as)
  from run_act_console [of E a s] Cons [of "run_act E a s"] show ?case by auto
qed simp

lemma Logger_Shutdown_console: "\<exists>more. console (Logger_Shutdown E g1 g2 s) = console s @ more"
proof -
  let ?r = "thread_acts E g1 (s\<lparr>log_running := False\<rparr>)"
  obtain m1 m2 where "console ?r = console s @ m1"
    "console (thread_acts E g2 (SwapBuffers ?r)) = console ?r @ m2"
    using thread_acts_console [of E g1 "s\<lparr>log_running := False\<rparr>"]
      thread_acts_console [of E g2 "SwapBuffers ?r"] by auto
  then show ?thesis by (simp add: Logger_Shutdown_def Logger_Flush_def)
qed

text \<open>A round of the log thread between the append and the flush writes the fatal message.\<close>

lemma Fatal_round_in_gap:
  assumes "log_inv s"
    and "lb_size (active_buffer s) +
         length (log_line E (local_time E (clock_reads s)) tid FATAL message file line) \<le> buffer_capacity s"
  shows "\<exists>more. console (Logger_Fatal E [Act_swap, Act_write] g1 g2 g3 tid message file line s) =
     console s @ buf_content (active_buffer s) @
     log_line E (local_time E (clock_reads s)) tid FATAL message file line @ more"
proof -
  let ?str = "log_line E (local_time E (clock_reads s)) tid FATAL message file line"
  let ?s = "s\<lparr>clock_reads := Suc (clock_reads s), active_buffer := buffer_append (active_buffer s) ?str\<rparr>"
  let ?w = "WriteLog E (thread_acts E [Act_swap, Act_write]) tid FATAL message file line s"
  note app = append_line [OF assms]
  have "?w = Logger_Flush (LogThread_round E ?s)"
    using WriteLog_append_fits [OF assms(1) FATAL_not_less assms(2)]
    by (simp add: WriteLog_def LogThread_round_def)
  moreover have "log_inv ?s" using assms(1) app(1) by (simp add: log_inv_def)
  ultimately have w: "console ?w = console s @ buf_content (active_buffer s) @ ?str"
    using LogThread_round_console [of ?s E] app(2) by (simp add: Logger_Flush_def)
  obtain m1 m2 where "console (thread_acts E g1 ?w) = console ?w @ m1"
    "console (Logger_Shutdown E g2 g3 (thread_acts E g1 ?w)) = console (thread_acts E g1 ?w) @ m2"
    using thread_acts_console [of E g1 ?w] Logger_Shutdown_console [of E g2 g3 "thread_acts E g1 ?w"]
    by blast
  with w show ?thesis by (simp add: Logger_Fatal_def)
qed

section \<open>Properties\<close>

definition demo_env :: log_env where
  "demo_env = \<lparr>local_time = (\<lambda>_. \<lparr>tm_year = 2026, tm_mon = 4, tm_mday = 21, tm_hour = 0, tm_min = 2, tm_sec = 19\<rparr>),
     can_open = (\<lambda>_. True), stat_ok = True, mkdir_ok = True, indeterminate = []\<rparr>"

definition demo_log :: logsys where
  "demo_log = \<lparr>log_level = INFO, log_running = True, active_buffer = LogBuffer_new 100,
      backup_buffer = LogBuffer_new 100, buffer_capacity = 100,
      max_log_file_size = 10, log_file = Some ''./log/tcp_server_2026-04-21.log'',
      current_date = ''2026-04-21'', log_directory = ''./log/'', current_log_file_size = 12,
      files = [''./log/tcp_server_2026-04-21.log'' \<mapsto> ''twelve bytes''],
      console = [], cerr = [], clock_reads = 0\<rparr>"

lemma demo_log_inv: "log_inv demo_log"
  by (simp add: log_inv_def demo_log_def buf_inv_def LogBuffer_new_def)

text \<open>
  C36: whatever messages, flushes, level changes and rounds of the log thread happen, the
  fill mark of both buffers stays within the capacity, so that no \<open>memcpy\<close> of a log line
  leaves its buffer.
\<close>

theorem log_buffers_bounded:
  assumes "log_inv s" "(log_step E)\<^sup>*\<^sup>* s t"
  shows "log_inv t \<and> lb_size (active_buffer t) \<le> length (lb_buffer (active_buffer t)) \<and>
         lb_size (backup_buffer t) \<le> length (lb_buffer (backup_buffer t))"
proof -
  from assms(2) have "log_inv t"
    by (induction rule: rtranclp_induct) (use assms(1) log_step_inv in blast)+
  then show ?thesis by (simp add: log_inv_def buf_inv_def)
qed

theorem log_buffers_bounded_witness: "log_inv (Logger_Flush demo_log)"
  using log_buffers_bounded [OF demo_log_inv, of demo_env "Logger_Flush demo_log"]
  by (simp add: r_into_rtranclp log_flush)

text \<open>
  C37: without a flush nothing is lost or written twice. Messages that fit into the active
  buffer are written by the next round of the log thread to the console and to the end of
  the open log file, after its old content: exactly the lines of the messages at or above
  the log level, in order, each with its own time stamp. No other file changes its content.
\<close>

theorem log_round_delivers:
  assumes "log_inv s" "\<forall>(tid, level, r) \<in> set rs. level \<noteq> FATAL"
    and "lb_size (active_buffer s) + length (accepted_lines E (log_level s) (clock_reads s) rs)
         \<le> buffer_capacity s"
    and "lines = buf_content (active_buffer s) @ accepted_lines E (log_level s) (clock_reads s) rs"
    and "t = LogThread_round E (write_all E rs s)"
  shows "console t = console s @ lines \<and>
         (\<forall>path. contents t path = contents s path @ (if log_file t = Some path then lines else []))"
proof -
  note w = write_all_content [OF assms(1-3)]
  have "contents (write_all E rs s) = contents s" using w by (simp add: contents_def fun_eq_iff)
  then show ?thesis
    using w LogThread_round_console [of "write_all E rs s" E] assms(4)
    by (simp add: LogThread_round_contents assms(5))
qed

theorem log_round_delivers_witness:
  "let t = LogThread_round demo_env (write_all demo_env
        [(''1'', INFO, ''hi'', ''m.cpp'', 7), (''1'', DEBUG, ''no'', ''m.cpp'', 8)] demo_log)
   in console t = ''[2026-04-21 00:02:19] [Thread:1] [INFO] [m.cpp:7] hi'' @ [CHR 0x0A] \<and>
      contents t ''./log/tcp_server_2026-04-21.log'' = ''twelve bytes'' @
        (if log_file t = Some ''./log/tcp_server_2026-04-21.log''
         then ''[2026-04-21 00:02:19] [Thread:1] [INFO] [m.cpp:7] hi'' @ [CHR 0x0A] else [])"
proof -
  let ?rs = "[(''1'', INFO, ''hi'', ''m.cpp'', 7), (''1'', DEBUG, ''no'', ''m.cpp'', 8)]"
  have acc: "accepted_lines demo_env INFO 0 ?rs = ''[2026-04-21 00:02:19] [Thread:1] [INFO] [m.cpp:7] hi'' @ [CHR 0x0A]"
    by code_simp
  have d: "log_level demo_log = INFO" "clock_reads demo_log = 0" "lb_size (active_buffer demo_log) = 0"
    "buffer_capacity demo_log = 100" "console demo_log = []" "buf_content (active_buffer demo_log) = []"
    "contents demo_log ''./log/tcp_server_2026-04-21.log'' = ''twelve bytes''"
    by (simp_all add: demo_log_def LogBuffer_new_def buf_content_def contents_def)
  show ?thesis
    using log_round_delivers [OF demo_log_inv, where rs = ?rs and E = demo_env, OF _ _ refl refl]
    unfolding d acc Let_def by (simp add: d(7))
qed

text \<open>
  C38: \<open>Flush\<close> loses what it was called to save. It moves the active buffer to the backup;
  the log thread it wakes swaps once more, which empties that buffer before it is
  written: nothing reaches the console or a file, and both buffers are empty.
\<close>

theorem Flush_discards_messages:
  "console (LogThread_round E (Logger_Flush s)) = console s \<and>
   files (LogThread_round E (Logger_Flush s)) = files s \<and>
   buf_content (active_buffer (LogThread_round E (Logger_Flush s))) = [] \<and>
   buf_content (backup_buffer (LogThread_round E (Logger_Flush s))) = []"
  by (simp add: LogThread_round_def LogThread_write_def Logger_Flush_def SwapBuffers_def Let_def
      buf_content_def)

text \<open>
  C39: a fatal message is lost unless the log thread happens to act at the right moment. When the log thread is still in its wait at the flush of \<open>WriteLog\<close> (it makes no
  step before, and its next step is the swap after the wait), \<open>Fatal\<close> ends with the console
  and the files as they were, wherever the later steps of the thread fall: the message and
  everything buffered before it is lost. It depends on that moment: with a whole round of the
  thread between the append and the flush, the line reaches the console.
\<close>

theorem Fatal_message_lost:
  assumes "g1 @ g2 @ g3 = Act_swap # later"
  shows "console (Logger_Fatal E [] g1 g2 g3 tid message file line s) = console s \<and>
         files (Logger_Fatal E [] g1 g2 g3 tid message file line s) = files s \<and>
         (log_inv s \<and> lb_size (active_buffer s) +
            length (log_line E (local_time E (clock_reads s)) tid FATAL message file line)
            \<le> buffer_capacity s \<longrightarrow>
          (\<exists>more. console (Logger_Fatal E [Act_swap, Act_write] g1 g2 g3 tid message file line s) =
             console s @ buf_content (active_buffer s) @
             log_line E (local_time E (clock_reads s)) tid FATAL message file line @ more))"
proof (intro conjI impI)
  let ?w = "WriteLog E (thread_acts E []) tid FATAL message file line s"
  have w: "lb_size (active_buffer ?w) = 0" "console ?w = console s" "files ?w = files s"
    by (auto simp: WriteLog_def WriteLog_append_def read_clock_def Let_def FATAL_not_less
        Logger_Flush_def SwapBuffers_def)
  have "drained (console s) (files s)
      (Logger_Flush (thread_acts E g2 ((thread_acts E g1 ?w)\<lparr>log_running := False\<rparr>)))"
  proof (cases g1)
    case (Cons a g)
    then have "drained (console s) (files s) (thread_acts E g1 ?w)"
      using swap_drains [OF w(1)] w(2,3) assms by (simp add: drained_acts)
    then show ?thesis by (simp add: Logger_Flush_def drained_step drained_acts)
  next
    case Nil
    let ?r = "?w\<lparr>log_running := False\<rparr>"
    have r: "drained (console s) (files s) (SwapBuffers ?r)"
      using swap_drains [of ?r] w by simp
    show ?thesis
    proof (cases g2)
      case (Cons a g)
      then have "drained (console s) (files s) (thread_acts E g2 ?r)"
        using r assms \<open>g1 = []\<close> by (simp add: drained_acts)
      then show ?thesis using \<open>g1 = []\<close> by (simp add: Logger_Flush_def drained_step)
    next
      case Nil
      with r \<open>g1 = []\<close> show ?thesis by (simp add: Logger_Flush_def)
    qed
  qed
  then have "drained (console s) (files s) (thread_acts E g3
      (Logger_Flush (thread_acts E g2 ((thread_acts E g1 ?w)\<lparr>log_running := False\<rparr>))))"
    by (rule drained_acts)
  then show "console (Logger_Fatal E [] g1 g2 g3 tid message file line s) = console s"
    "files (Logger_Fatal E [] g1 g2 g3 tid message file line s) = files s"
    by (simp_all add: Logger_Fatal_def Logger_Shutdown_def drained_def)
next
  assume fit: "log_inv s \<and> lb_size (active_buffer s) +
      length (log_line E (local_time E (clock_reads s)) tid FATAL message file line) \<le> buffer_capacity s"
  show "\<exists>more. console (Logger_Fatal E [Act_swap, Act_write] g1 g2 g3 tid message file line s) =
      console s @ buf_content (active_buffer s) @
      log_line E (local_time E (clock_reads s)) tid FATAL message file line @ more"
    by (rule Fatal_round_in_gap) (use fit in simp_all)
qed

theorem Fatal_message_lost_witness:
  "console (Logger_Fatal demo_env [] [] [] [Act_swap, Act_write, Act_exit] ''1'' ''bye'' ''m.cpp'' 7 demo_log) = []"
  using Fatal_message_lost [of "[]" "[]" "[Act_swap, Act_write, Act_exit]" "[Act_write, Act_exit]"
      demo_env "''1''" "''bye''" "''m.cpp''" 7 demo_log]
  by (simp add: demo_log_def)

text \<open>
  C40: the size limit does not split the log. As long as the day is the one on which the
  file was opened, the rotation opens the file it has just closed: the path and the contents
  stay and only the counter restarts, so the file grows beyond \<open>max_log_file_size_\<close>.
\<close>

theorem size_rotation_keeps_file:
  assumes "log_file (RotateLogFile E s0) = Some path" "log_file s = Some path"
    and "log_directory s = log_directory s0"
    and "same_day (local_time E (clock_reads s)) (local_time E (clock_reads s0))"
    and "files s path = Some c" "max_log_file_size s \<le> current_log_file_size s"
  shows "log_file (CheckLogFileSize E s) = Some path \<and> files (CheckLogFileSize E s) = files s \<and>
         current_log_file_size (CheckLogFileSize E s) = 0"
proof -
  have "fst (GetLogFilePath E s) = fst (GetLogFilePath E s0)"
    using assms(3,4) by (simp add: GetLogFilePath_def read_clock_def Let_def same_day_def date_string_def)
  moreover have "fst (GetLogFilePath E s0) = path" "can_open E path"
    using assms(1) by (auto simp: RotateLogFile_eval split: if_splits)
  ultimately show ?thesis
    using assms(5,6) by (simp add: CheckLogFileSize_def RotateLogFile_eval)
qed

theorem size_rotation_keeps_file_witness:
  "log_file (CheckLogFileSize demo_env demo_log) = Some ''./log/tcp_server_2026-04-21.log'' \<and>
   files (CheckLogFileSize demo_env demo_log) = files demo_log"
proof -
  have "log_file (RotateLogFile demo_env demo_log) = Some ''./log/tcp_server_2026-04-21.log''"
    by code_simp
  from size_rotation_keeps_file [OF this] show ?thesis
    by (simp add: demo_log_def demo_env_def same_day_def)
qed

end
