(* ===== verification/Sys.thy ===== *)
theory Sys
  imports Util_Log
begin

text \<open>
  The interface to the operating system. The kernel and the C library are not part of the
  program: the kernel is a parameter, a function from its (arbitrary) state and a system
  call to a reply and a next state, so that every behaviour of the network and of other
  processes is covered. What the program relies on is stated in predicates such as
  \<open>recv_ok\<close>. The base state \<open>sysw\<close> has the kernel state, \<open>errno\<close>, and as history the
  system calls made and the messages handed to the logger.
\<close>

unbundle bit_operations_syntax

section \<open>System calls\<close>

record sockaddr_in =
  sin_port :: "16 word"
  sin_addr :: "32 word"

record epoll_event =
  ev_events :: "32 word"
  ev_fd :: int

datatype ctl_op = EPOLL_CTL_ADD | EPOLL_CTL_MOD | EPOLL_CTL_DEL

datatype sockopt = SO_REUSEADDR | SO_REUSEPORT | TCP_NODELAY

datatype syscall =
    Sys_socket
  | Sys_bind int sockaddr_in
  | Sys_listen int int
  | Sys_accept int
  | Sys_connect int sockaddr_in
  | Sys_send int "byte list"
  | Sys_recv int size_t
  | Sys_close int
  | Sys_getfl int
  | Sys_setfl int int
  | Sys_setsockopt int sockopt
  | Sys_getpeername int
  | Sys_getsockname int
  | Sys_epoll_create1
  | Sys_epoll_ctl int ctl_op int "32 word"
  | Sys_epoll_wait int int int
  | Sys_eventfd
  | Sys_write_eventfd int
  | Sys_read_eventfd int
  | Sys_signal int
  | Sys_clock

text \<open>
  A reply: the return value, the error number for a failing call, and what the kernel
  stored in the caller's memory (received bytes, an address, events).
\<close>

record reply =
  rp_ret :: int
  rp_errno :: int
  rp_bytes :: "byte list"
  rp_addr :: sockaddr_in
  rp_events :: "epoll_event list"

text \<open>
  The environment: the kernel, the message texts of \<open>strerror\<close>, the address conversions
  of the C library, the order in which \<open>std::unordered_map\<close> iterates, which the standard
  leaves open, \<open>new char[n]\<close> (\<open>None\<close> for \<open>std::bad_alloc\<close>), whether a vector that is to grow to
  a number of bytes gets the memory (otherwise \<open>std::bad_alloc\<close>, which may differ from moment to
  moment and so depends on the kernel state),
  \<open>std::thread::hardware_concurrency()\<close> and \<open>std::hash\<close> of a thread id.
\<close>

record 'k os =
  os_call :: "'k \<Rightarrow> syscall \<Rightarrow> reply \<times> 'k"
  os_strerror :: "int \<Rightarrow> string"
  os_pton :: "string \<Rightarrow> 32 word option"
  os_ntop :: "32 word \<Rightarrow> string"
  os_iter :: "(int \<times> nat) list \<Rightarrow> (int \<times> nat) list"
  os_new_array :: "size_t \<Rightarrow> nat option"
  os_grant :: "'k \<Rightarrow> size_t \<Rightarrow> bool"
  os_cpus :: size_t
  os_thread_hash :: "nat \<Rightarrow> size_t"

record 'k sysw =
  kst :: 'k
  errno :: int
  calls :: "syscall list"
  logs :: "(LogLevel \<times> string) list"

section \<open>Constants of the Linux headers\<close>

definition EAGAIN :: int where "EAGAIN = 11"

definition EWOULDBLOCK :: int where "EWOULDBLOCK = 11"

definition EINTR :: int where "EINTR = 4"

definition EINPROGRESS :: int where "EINPROGRESS = 115"

definition O_NONBLOCK :: int where "O_NONBLOCK = 2048"

definition EPOLLIN :: "32 word" where "EPOLLIN = 1"

definition EPOLLOUT :: "32 word" where "EPOLLOUT = 4"

definition EPOLLERR :: "32 word" where "EPOLLERR = 8"

definition EPOLLHUP :: "32 word" where "EPOLLHUP = 16"

definition EPOLLONESHOT :: "32 word" where "EPOLLONESHOT = 0x40000000"

definition EPOLLET :: "32 word" where "EPOLLET = 0x80000000"

text \<open>\<open>htons\<close> and \<open>ntohs\<close> on a little-endian machine: the two bytes are exchanged.\<close>

definition htons :: "16 word \<Rightarrow> 16 word" where
  "htons p = push_bit 8 p OR drop_bit 8 p"

definition ntohs :: "16 word \<Rightarrow> 16 word" where
  "ntohs p = push_bit 8 p OR drop_bit 8 p"

section \<open>Making a call\<close>

definition syscall :: "'k os \<Rightarrow> syscall \<Rightarrow> (('k, 'z) sysw_scheme, reply) prog" where
  "syscall os c = (\<lambda>w. case os_call os (kst w) c of
     (r, k) \<Rightarrow> (Inr r, w\<lparr>kst := k, errno := (if rp_ret r < 0 then rp_errno r else errno w),
                         calls := calls w @ [c]\<rparr>))"

text \<open>\<open>std::chrono::steady_clock::now()\<close>, in nanoseconds.\<close>

definition steady_now :: "'k os \<Rightarrow> (('k, 'z) sysw_scheme, int) prog" where
  "steady_now os = (\<lambda>w. case os_call os (kst w) Sys_clock of
     (r, k) \<Rightarrow> (Inr (rp_ret r), w\<lparr>kst := k\<rparr>))"

text \<open>The macros \<open>LOG_DEBUG\<close> to \<open>LOG_FATAL\<close> hand a message to the logger.\<close>

definition LOG :: "LogLevel \<Rightarrow> string \<Rightarrow> (('k, 'z) sysw_scheme, unit) prog" where
  "LOG level message = modify (\<lambda>w. w\<lparr>logs := logs w @ [(level, message)]\<rparr>)"

text \<open>How often \<open>close(fd)\<close> was called.\<close>

definition closes :: "int \<Rightarrow> ('k, 'z) sysw_scheme \<Rightarrow> nat" where
  "closes fd w = count_list (calls w) (Sys_close fd)"

section \<open>What the program relies on\<close>

text \<open>
  \<open>recv\<close> stores the bytes it reports, at most as many as fit; \<open>send\<close> takes at most what it
  is given; \<open>epoll_wait\<close> reports at most the number of events asked for; -1 is the only
  negative answer.
\<close>

definition recv_ok :: "'k os \<Rightarrow> bool" where
  "recv_ok os \<longleftrightarrow> (\<forall>k fd n. let r = fst (os_call os k (Sys_recv fd n)) in
     - 1 \<le> rp_ret r \<and> rp_ret r \<le> int n \<and> (0 \<le> rp_ret r \<longrightarrow> rp_ret r = int (length (rp_bytes r))))"

definition send_ok :: "'k os \<Rightarrow> bool" where
  "send_ok os \<longleftrightarrow> (\<forall>k fd bs. let r = fst (os_call os k (Sys_send fd bs)) in
     - 1 \<le> rp_ret r \<and> rp_ret r \<le> int (length bs))"

definition epoll_wait_ok :: "'k os \<Rightarrow> bool" where
  "epoll_wait_ok os \<longleftrightarrow> (\<forall>k ep n t. let r = fst (os_call os k (Sys_epoll_wait ep n t)) in
     - 1 \<le> rp_ret r \<and> rp_ret r \<le> max 0 n \<and> (0 \<le> rp_ret r \<longrightarrow> rp_ret r = int (length (rp_events r))))"

text \<open>
  \<open>clock os k\<close> is what a reading of the steady clock answers in kernel state \<open>k\<close>. It never
  goes back, whatever call is made in between.
\<close>

definition clock :: "'k os \<Rightarrow> 'k \<Rightarrow> int" where
  "clock os k = rp_ret (fst (os_call os k Sys_clock))"

definition clock_monotone :: "'k os \<Rightarrow> bool" where
  "clock_monotone os \<longleftrightarrow> (\<forall>k c. clock os k \<le> clock os (snd (os_call os k c)))"

definition iter_ok :: "'k os \<Rightarrow> bool" where
  "iter_ok os \<longleftrightarrow> (\<forall>m. mset (os_iter os m) = mset m)"

section \<open>Lemmas\<close>

lemma syscall_eval [prog_simps]:
  "syscall os c w =
     (Inr (fst (os_call os (kst w) c)),
      w\<lparr>kst := snd (os_call os (kst w) c),
        errno := (if rp_ret (fst (os_call os (kst w) c)) < 0
                  then rp_errno (fst (os_call os (kst w) c)) else errno w),
        calls := calls w @ [c]\<rparr>)"
  by (simp add: syscall_def split: prod.split)

lemma steady_now_eval [prog_simps]:
  "steady_now os w = (Inr (rp_ret (fst (os_call os (kst w) Sys_clock))),
      w\<lparr>kst := snd (os_call os (kst w) Sys_clock)\<rparr>)"
  by (simp add: steady_now_def split: prod.split)

lemma LOG_eval [prog_simps]: "LOG lv m w = (Inr (), w\<lparr>logs := logs w @ [(lv, m)]\<rparr>)"
  by (simp add: LOG_def modify_def)

lemma ntohs_htons: "ntohs (htons p) = p"
proof (rule bit_word_eqI)
  fix n assume "n < LENGTH(16)"
  then show "bit (ntohs (htons p)) n = bit p n"
    by (auto simp: ntohs_def htons_def bit_or_iff bit_push_bit_iff bit_drop_bit_eq)
qed

lemma recv_okD:
  assumes "recv_ok os" "os_call os k (Sys_recv fd n) = (r, k')"
  shows "- 1 \<le> rp_ret r" "rp_ret r \<le> int n" "0 \<le> rp_ret r \<Longrightarrow> rp_ret r = int (length (rp_bytes r))"
  using assms unfolding recv_ok_def Let_def by (metis fst_conv)+

lemma send_okD:
  assumes "send_ok os" "os_call os k (Sys_send fd bs) = (r, k')"
  shows "- 1 \<le> rp_ret r" "rp_ret r \<le> int (length bs)"
  using assms unfolding send_ok_def Let_def by (metis fst_conv)+

lemma iter_okD:
  assumes "iter_ok os"
  shows "set (os_iter os m) = set m" "length (os_iter os m) = length m"
  using assms unfolding iter_ok_def by (metis mset_eq_setD, metis mset_eq_length)

text \<open>
  \<open>sys_only\<close>: an operation has changed the kernel, \<open>errno\<close> and the history, and nothing
  else of the state; the history only grows.
\<close>

definition sys_only :: "('k, 'z) sysw_scheme \<Rightarrow> ('k, 'z) sysw_scheme \<Rightarrow> bool" where
  "sys_only w w' \<longleftrightarrow> (\<exists>k e cs ls. w' = w\<lparr>kst := k, errno := e, calls := calls w @ cs, logs := logs w @ ls\<rparr>)"

lemma sys_onlyI: "w' = w\<lparr>kst := k, errno := e, calls := calls w @ cs, logs := logs w @ ls\<rparr> \<Longrightarrow> sys_only w w'"
  unfolding sys_only_def by blast

lemma sys_only_refl [simp, intro]: "sys_only w w"
  by (rule sys_onlyI [where k = "kst w" and e = "errno w" and cs = "[]" and ls = "[]"]) simp

lemma sys_only_trans: "sys_only a b \<Longrightarrow> sys_only b c \<Longrightarrow> sys_only a c"
  unfolding sys_only_def
proof (elim exE)
  fix k e cs ls k' e' cs' ls'
  assume "b = a\<lparr>kst := k, errno := e, calls := calls a @ cs, logs := logs a @ ls\<rparr>"
    and "c = b\<lparr>kst := k', errno := e', calls := calls b @ cs', logs := logs b @ ls'\<rparr>"
  then have "c = a\<lparr>kst := k', errno := e', calls := calls a @ cs @ cs', logs := logs a @ ls @ ls'\<rparr>" by simp
  then show "\<exists>k e cs ls. c = a\<lparr>kst := k, errno := e, calls := calls a @ cs, logs := logs a @ ls\<rparr>" by blast
qed

lemma sys_only_steps [simp]:
  "sys_only w (w\<lparr>kst := k\<rparr>)" "sys_only w (w\<lparr>errno := e\<rparr>)" "sys_only w (w\<lparr>calls := calls w @ cs\<rparr>)"
  "sys_only w (w\<lparr>logs := logs w @ ls\<rparr>)"
  by (rule sys_onlyI [where k = k and e = "errno w" and cs = "[]" and ls = "[]"], simp,
      rule sys_onlyI [where k = "kst w" and e = e and cs = "[]" and ls = "[]"], simp,
      rule sys_onlyI [where k = "kst w" and e = "errno w" and cs = cs and ls = "[]"], simp,
      rule sys_onlyI [where k = "kst w" and e = "errno w" and cs = "[]" and ls = ls], simp)

lemma sys_only_upd [simp]:
  "sys_only w (w\<lparr>kst := k, logs := logs w @ ls\<rparr>)"
  "sys_only w (w\<lparr>kst := k, calls := calls w @ cs\<rparr>)"
  "sys_only w (w\<lparr>kst := k, errno := e, calls := calls w @ cs\<rparr>)"
  "sys_only w (w\<lparr>kst := k, calls := calls w @ cs, logs := logs w @ ls\<rparr>)"
  "sys_only w (w\<lparr>kst := k, errno := e, calls := calls w @ cs, logs := logs w @ ls\<rparr>)"
  by (rule sys_onlyI [where k = k and e = "errno w" and cs = "[]" and ls = ls], simp,
      rule sys_onlyI [where k = k and e = "errno w" and cs = cs and ls = "[]"], simp,
      rule sys_onlyI [where k = k and e = e and cs = cs and ls = "[]"], simp,
      rule sys_onlyI [where k = k and e = "errno w" and cs = cs and ls = ls], simp,
      rule sys_onlyI [where k = k and e = e and cs = cs and ls = ls], simp)

lemma sys_only_log_first [simp]:
  "sys_only w (w\<lparr>logs := logs w @ ls, kst := k, calls := calls w @ cs\<rparr>)"
  "sys_only w (w\<lparr>logs := logs w @ ls, kst := k, errno := e, calls := calls w @ cs\<rparr>)"
  by (rule sys_onlyI [where k = k and e = "errno w" and cs = cs and ls = ls], cases w, simp,
      rule sys_onlyI [where k = k and e = e and cs = cs and ls = ls], cases w, simp)

lemma keeps_sys_only [keeps_intros]:
  "keeps (sys_only w0) (syscall os c)" "keeps (sys_only w0) (LOG lv m)" "keeps (sys_only w0) (steady_now os)"
  by (auto intro!: keepsI elim!: sys_only_trans simp: syscall_eval LOG_eval steady_now_eval)

text \<open>
  A program that only makes system calls and writes messages keeps every invariant that does
  not speak of them.
\<close>

definition sys_stable :: "(('k, 'z) sysw_scheme \<Rightarrow> bool) \<Rightarrow> bool" where
  "sys_stable I \<longleftrightarrow> (\<forall>w w'. I w \<longrightarrow> sys_only w w' \<longrightarrow> I w')"

lemma keeps_stable:
  assumes "\<And>w0. keeps (sys_only w0) m" "sys_stable I"
  shows "keeps I m"
  using assms unfolding keeps_def sys_stable_def by blast

lemma keeps_sys_onlyD: "(\<And>w0. keeps (sys_only w0) m) \<Longrightarrow> m w = (r, w') \<Longrightarrow> sys_only w w'"
  using keepsD sys_only_refl by metis

lemma sys_only_syscall: "sys_only w (snd (syscall os c w))" "sys_only w (snd (LOG lv m w))"
    "sys_only w (snd (steady_now os w))"
  by (simp_all add: syscall_eval LOG_eval steady_now_eval)

lemma ends_sys [keeps_intros]: "ends (syscall os c)" "ends (LOG lv m)" "ends (steady_now os)"
  by (simp_all add: ends_def syscall_eval LOG_eval steady_now_eval)

section \<open>A kernel that records what it takes\<close>

text \<open>
  \<open>recording os\<close> is the same kernel, whose state also has, for each descriptor, the bytes
  it took from the calls of \<open>send\<close>: as many as it reported, from the front of what it was
  given.
\<close>

fun taken :: "syscall \<Rightarrow> reply \<Rightarrow> (int \<Rightarrow> byte list) \<Rightarrow> int \<Rightarrow> byte list" where
  "taken (Sys_send fd bs) r str = str(fd := str fd @ take (nat (rp_ret r)) bs)"
| "taken _ r str = str"

definition recording :: "'k os \<Rightarrow> ('k \<times> (int \<Rightarrow> byte list)) os" where
  "recording os = \<lparr>os_call = (\<lambda>(k, str) c. case os_call os k c of (r, k') \<Rightarrow> (r, (k', taken c r str))),
     os_strerror = os_strerror os, os_pton = os_pton os, os_ntop = os_ntop os, os_iter = os_iter os,
     os_new_array = os_new_array os, os_grant = (\<lambda>(k, str). os_grant os k), os_cpus = os_cpus os,
     os_thread_hash = os_thread_hash os\<rparr>"

lemma recording_call:
  "os_call (recording os) k c =
     (fst (os_call os (fst k) c), (snd (os_call os (fst k) c), taken c (fst (os_call os (fst k) c)) (snd k)))"
  by (simp add: recording_def split: prod.split)

lemma recording_send_ok: "send_ok os \<Longrightarrow> send_ok (recording os)"
  by (simp add: send_ok_def recording_call)

section \<open>A scripted kernel\<close>

text \<open>
  A concrete environment: the kernel state is the list of the replies to come. It keeps
  the contracts above, whatever the script, because a reply that does not fit its call is
  answered by \<open>EAGAIN\<close> instead.
\<close>

definition no_addr :: sockaddr_in where
  "no_addr = \<lparr>sin_port = 0, sin_addr = 0\<rparr>"

definition reply_of :: "int \<Rightarrow> int \<Rightarrow> byte list \<Rightarrow> reply" where
  "reply_of r e bs = \<lparr>rp_ret = r, rp_errno = e, rp_bytes = bs, rp_addr = no_addr, rp_events = []\<rparr>"

fun reply_fits :: "syscall \<Rightarrow> reply \<Rightarrow> bool" where
  "reply_fits (Sys_recv fd n) r \<longleftrightarrow> - 1 \<le> rp_ret r \<and> rp_ret r \<le> int n \<and>
     (0 \<le> rp_ret r \<longrightarrow> rp_ret r = int (length (rp_bytes r)))"
| "reply_fits (Sys_send fd bs) r \<longleftrightarrow> - 1 \<le> rp_ret r \<and> rp_ret r \<le> int (length bs)"
| "reply_fits (Sys_epoll_wait ep n t) r \<longleftrightarrow> - 1 \<le> rp_ret r \<and> rp_ret r \<le> max 0 n \<and>
     (0 \<le> rp_ret r \<longrightarrow> rp_ret r = int (length (rp_events r)))"
| "reply_fits _ r \<longleftrightarrow> True"

fun script_call :: "reply list \<Rightarrow> syscall \<Rightarrow> reply \<times> reply list" where
  "script_call [] c = (reply_of (- 1) EAGAIN [], [])"
| "script_call (r # rs) c = (if reply_fits c r then (r, rs) else (reply_of (- 1) EAGAIN [], rs))"

definition script_os :: "reply list os" where
  "script_os = \<lparr>os_call = script_call, os_strerror = (\<lambda>e. ''error''), os_pton = (\<lambda>s. Some 0),
     os_ntop = (\<lambda>a. ''0.0.0.0''), os_iter = (\<lambda>m. m),
     os_new_array = (\<lambda>n. if n < 2 ^ 63 then Some 4096 else None), os_grant = (\<lambda>k n. True), os_cpus = 4, os_thread_hash = (\<lambda>t. t)\<rparr>"

definition script_world :: "reply list \<Rightarrow> reply list sysw" where
  "script_world rs = \<lparr>kst = rs, errno = 0, calls = [], logs = []\<rparr>"

lemma script_call_ok: "recv_ok script_os" "send_ok script_os" "epoll_wait_ok script_os" "iter_ok script_os"
proof -
  have "reply_fits c (reply_of (- 1) EAGAIN [])" for c
    by (cases c) (simp_all add: reply_of_def)
  then have "reply_fits c (fst (script_call k c))" for k c
    by (cases k) simp_all
  from this [of "Sys_recv _ _"] this [of "Sys_send _ _"] this [of "Sys_epoll_wait _ _ _"]
  show "recv_ok script_os" "send_ok script_os" "epoll_wait_ok script_os" "iter_ok script_os"
    by (simp_all add: recv_ok_def send_ok_def epoll_wait_ok_def iter_ok_def script_os_def Let_def)
qed

lemma script_os_call [simp]: "os_call script_os = script_call" "os_grant script_os k n"
  by (simp_all add: script_os_def)

end
