(* ===== verification/Net_Epoll.thy ===== *)
theory Net_Epoll
  imports Sys
begin

text \<open>
  \<open>net::Epoll\<close> (\<open>src/net/epoll.h\<close>, \<open>src/net/epoll.cpp\<close>): a wrapper of the \<open>epoll\<close> system
  calls that throws on errors and keeps the array of ready events.
\<close>

section \<open>State and operations\<close>

record Epoll =
  epoll_fd :: int
  max_events :: int
  ep_events :: "epoll_event list"
  event_count :: int

definition Epoll_CheckError :: "'k os \<Rightarrow> int \<Rightarrow> string \<Rightarrow> (('k, 'z) sysw_scheme, unit) prog" where
  "Epoll_CheckError os r operation =
     (if r < 0
      then bnd (gets errno) (\<lambda>e.
        let msg = operation @ '' failed: '' @ os_strerror os e
        in andthen (LOG ERROR msg) (throw (Runtime_error msg)))
      else ret ())"

definition Epoll_new :: "'k os \<Rightarrow> int \<Rightarrow> (('k, 'z) sysw_scheme, Epoll) prog" where
  "Epoll_new os maxev = bnd (syscall os Sys_epoll_create1) (\<lambda>r.
     andthen (Epoll_CheckError os (rp_ret r) ''epoll_create1'')
    (andthen (LOG INFO (''Epoll created: fd='' @ to_string (rp_ret r) @ '', max_events='' @ to_string maxev))
             (ret \<lparr>epoll_fd = rp_ret r, max_events = maxev,
                   ep_events = replicate (nat maxev) \<lparr>ev_events = 0, ev_fd = 0\<rparr>, event_count = 0\<rparr>)))"

definition Epoll_delete :: "'k os \<Rightarrow> Epoll \<Rightarrow> (('k, 'z) sysw_scheme, unit) prog" where
  "Epoll_delete os ep =
     (if epoll_fd ep \<noteq> - 1
      then andthen (LOG INFO (''Epoll closed: fd='' @ to_string (epoll_fd ep)))
                   (bnd (syscall os (Sys_close (epoll_fd ep))) (\<lambda>_. ret ()))
      else ret ())"

definition Epoll_AddFd :: "'k os \<Rightarrow> Epoll \<Rightarrow> int \<Rightarrow> 32 word \<Rightarrow> (('k, 'z) sysw_scheme, unit) prog" where
  "Epoll_AddFd os ep fd events = bnd (syscall os (Sys_epoll_ctl (epoll_fd ep) EPOLL_CTL_ADD fd events)) (\<lambda>r.
     andthen (Epoll_CheckError os (rp_ret r) ''epoll_ctl(EPOLL_CTL_ADD)'')
       (LOG DEBUG (''Epoll add fd='' @ to_string fd @ '', events='' @ to_string (uint events))))"

definition Epoll_ModifyFd :: "'k os \<Rightarrow> Epoll \<Rightarrow> int \<Rightarrow> 32 word \<Rightarrow> (('k, 'z) sysw_scheme, unit) prog" where
  "Epoll_ModifyFd os ep fd events = bnd (syscall os (Sys_epoll_ctl (epoll_fd ep) EPOLL_CTL_MOD fd events)) (\<lambda>r.
     andthen (Epoll_CheckError os (rp_ret r) ''epoll_ctl(EPOLL_CTL_MOD)'')
       (LOG DEBUG (''Epoll modify fd='' @ to_string fd @ '', events='' @ to_string (uint events))))"

definition Epoll_RemoveFd :: "'k os \<Rightarrow> Epoll \<Rightarrow> int \<Rightarrow> (('k, 'z) sysw_scheme, unit) prog" where
  "Epoll_RemoveFd os ep fd = bnd (syscall os (Sys_epoll_ctl (epoll_fd ep) EPOLL_CTL_DEL fd 0)) (\<lambda>r.
     andthen (Epoll_CheckError os (rp_ret r) ''epoll_ctl(EPOLL_CTL_DEL)'')
       (LOG DEBUG (''Epoll remove fd='' @ to_string fd)))"

definition Epoll_Wait :: "'k os \<Rightarrow> int \<Rightarrow> (Epoll \<times> ('k, 'z) sysw_scheme, int) prog" where
  "Epoll_Wait os timeout_ms = bnd (gets fst) (\<lambda>ep.
     bnd (on_snd (syscall os (Sys_epoll_wait (epoll_fd ep) (max_events ep) timeout_ms))) (\<lambda>r.
     andthen (guard (0 < rp_ret r \<longrightarrow> length (rp_events r) \<le> length (ep_events ep)) ''epoll_wait beyond events_'')
    (andthen (modify (\<lambda>(e, w). (e\<lparr>event_count := rp_ret r,
                ep_events := (if 0 < rp_ret r then blit (ep_events e) 0 (rp_events r) else ep_events e)\<rparr>, w)))
    (bnd (on_snd (gets errno)) (\<lambda>e.
     if rp_ret r < 0 \<and> e = EINTR then ret 0
     else andthen (doif (rp_ret r < 0) (on_snd (Epoll_CheckError os (rp_ret r) ''epoll_wait'')))
         (andthen (doif (0 < rp_ret r)
             (on_snd (LOG DEBUG (''Epoll wait: '' @ to_string (rp_ret r) @ '' events ready''))))
             (ret (rp_ret r))))))))"

definition Epoll_GetEvents :: "Epoll \<Rightarrow> epoll_event list" where
  "Epoll_GetEvents ep = ep_events ep"

definition Epoll_GetEventCount :: "Epoll \<Rightarrow> int" where
  "Epoll_GetEventCount ep = event_count ep"

definition Epoll_GetFd :: "Epoll \<Rightarrow> int" where
  "Epoll_GetFd ep = epoll_fd ep"

definition Epoll_IsValid :: "Epoll \<Rightarrow> bool" where
  "Epoll_IsValid ep = (epoll_fd ep \<noteq> - 1)"

end
