(* ===== verification/Conn_Connection.thy ===== *)
theory Conn_Connection
  imports Sys
begin

text \<open>
  \<open>conn::Connection\<close> (\<open>src/conn/connection.h\<close>, \<open>src/conn/connection.cpp\<close>): a client
  connection with a read and a write buffer, a state and the time of its last activity.
  Both buffers are vectors with a fill mark; the bytes before the mark are the content.
\<close>

section \<open>State and operations\<close>

datatype ConnectionState = CONNECTING | CONNECTED | CLOSED

record Connection =
  conn_fd :: int
  conn_ip :: string
  conn_port :: "16 word"
  conn_state :: ConnectionState
  last_heartbeat :: int
  read_buffer :: "byte list"
  write_buffer :: "byte list"
  read_idx :: size_t
  write_idx :: size_t

definition conn_name :: "Connection \<Rightarrow> string" where
  "conn_name c = conn_ip c @ '':'' @ to_string (uint (conn_port c))"

text \<open>
  The constructor. \<open>reserve\<close> changes the capacity of a vector and not its size; the shared
  pointer to the memory pool is stored and never used, so it has no field here.
\<close>

definition Connection_new :: "'k os \<Rightarrow> int \<Rightarrow> string \<Rightarrow> 16 word \<Rightarrow> (('k, 'z) sysw_scheme, Connection) prog" where
  "Connection_new os fd ip port = bnd (steady_now os) (\<lambda>now.
     let c = \<lparr>conn_fd = fd, conn_ip = ip, conn_port = port, conn_state = CONNECTING,
              last_heartbeat = now, read_buffer = [], write_buffer = [], read_idx = 0, write_idx = 0\<rparr>
     in andthen (LOG INFO (''Connection created: '' @ conn_name c @ '', fd='' @ to_string fd)) (ret c))"

definition Connection_GetFd :: "Connection \<Rightarrow> int" where
  "Connection_GetFd c = conn_fd c"

definition Connection_GetIp :: "Connection \<Rightarrow> string" where
  "Connection_GetIp c = conn_ip c"

definition Connection_GetPort :: "Connection \<Rightarrow> 16 word" where
  "Connection_GetPort c = conn_port c"

definition Connection_GetState :: "Connection \<Rightarrow> ConnectionState" where
  "Connection_GetState c = conn_state c"

fun state_str :: "ConnectionState \<Rightarrow> string" where
  "state_str CONNECTING = ''CONNECTING''"
| "state_str CONNECTED = ''CONNECTED''"
| "state_str CLOSED = ''CLOSED''"

definition Connection_SetState :: "ConnectionState \<Rightarrow> (Connection \<times> ('k, 'z) sysw_scheme, unit) prog" where
  "Connection_SetState st = andthen (modify (\<lambda>(c, w). (c\<lparr>conn_state := st\<rparr>, w)))
     (bnd (gets fst) (\<lambda>c.
        on_snd (LOG DEBUG (''Connection state changed: '' @ conn_name c @ '' -> '' @ state_str st))))"

definition Connection_UpdateHeartbeat :: "'k os \<Rightarrow> (Connection \<times> ('k, 'z) sysw_scheme, unit) prog" where
  "Connection_UpdateHeartbeat os = bnd (on_snd (steady_now os)) (\<lambda>now.
     modify (\<lambda>(c, w). (c\<lparr>last_heartbeat := now\<rparr>, w)))"

text \<open>\<open>duration_cast<milliseconds>\<close> rounds towards zero.\<close>

definition duration_ms :: "int \<Rightarrow> int" where
  "duration_ms ns = sgn ns * (\<bar>ns\<bar> div 1000000)"

definition Connection_GetLastHeartbeatMs :: "'k os \<Rightarrow> Connection \<Rightarrow> (('k, 'z) sysw_scheme, int) prog" where
  "Connection_GetLastHeartbeatMs os c = bnd (steady_now os) (\<lambda>now. ret (duration_ms (now - last_heartbeat c)))"

definition Connection_IsTimeout :: "'k os \<Rightarrow> Connection \<Rightarrow> int \<Rightarrow> (('k, 'z) sysw_scheme, bool) prog" where
  "Connection_IsTimeout os c timeout_ms = bnd (steady_now os) (\<lambda>now.
     ret (timeout_ms < duration_ms (now - last_heartbeat c)))"

text \<open>
  \<open>std::vector<char>::resize\<close> to \<open>n\<close> bytes, more than the vector has: it throws beyond
  \<open>max_size()\<close>, which is $2^{63} - 1$, and when there is no memory; then nothing has changed.
\<close>

definition resize_prog :: "'k os \<Rightarrow> (Connection \<Rightarrow> Connection) \<Rightarrow> size_t \<Rightarrow> (Connection \<times> ('k, 'z) sysw_scheme, unit) prog" where
  "resize_prog os f n =
     (if 2 ^ 63 \<le> n then throw Length_error
      else bnd (gets (kst \<circ> snd)) (\<lambda>k.
        if os_grant os k n then modify (\<lambda>(c, w). (f c, w)) else throw Bad_alloc))"

definition CheckAndResizeReadBuffer :: "'k os \<Rightarrow> (Connection \<times> ('k, 'z) sysw_scheme, unit) prog" where
  "CheckAndResizeReadBuffer os = bnd (gets fst) (\<lambda>c.
     if usz_sub (length (read_buffer c)) (read_idx c) < 1024
     then let new_size = max (usz_mul (length (read_buffer c)) 2) (usz_add (read_idx c) 4096)
          in resize_prog os (\<lambda>c. c\<lparr>read_buffer := vec_resize (read_buffer c) new_size\<rparr>) new_size
     else ret ())"

definition CheckAndResizeWriteBuffer :: "'k os \<Rightarrow> (Connection \<times> ('k, 'z) sysw_scheme, unit) prog" where
  "CheckAndResizeWriteBuffer os = bnd (gets fst) (\<lambda>c.
     if usz_sub (length (write_buffer c)) (write_idx c) < 1024
     then let new_size = max (usz_mul (length (write_buffer c)) 2) (usz_add (write_idx c) 4096)
          in resize_prog os (\<lambda>c. c\<lparr>write_buffer := vec_resize (write_buffer c) new_size\<rparr>) new_size
     else ret ())"

text \<open>How a failing or closing system call ends an operation: the state becomes \<open>CLOSED\<close>.\<close>

definition set_closed :: "(Connection \<times> 'w, unit) prog" where
  "set_closed = modify (\<lambda>(c, w). (c\<lparr>conn_state := CLOSED\<rparr>, w))"

definition io_failed :: "'k os \<Rightarrow> string \<Rightarrow> int \<Rightarrow> (Connection \<times> ('k, 'z) sysw_scheme, unit) prog" where
  "io_failed os what r = bnd (gets (\<lambda>(c, w). (c, errno w))) (\<lambda>(c, e).
     if r = 0
     then andthen (on_snd (LOG INFO (''Connection closed by peer: '' @ conn_name c))) set_closed
     else doif (e \<noteq> EAGAIN \<and> e \<noteq> EWOULDBLOCK)
       (andthen (on_snd (LOG ERROR (''Connection '' @ what @ '' error: '' @ conn_name c @ '', errno='' @
                   to_string e @ '' ('' @ os_strerror os e @ '')''))) set_closed))"

text \<open>
  The accesses to the buffers: \<open>recv\<close> has stored bytes behind the content of the read buffer;
  \<open>memmove\<close> takes the bytes that \<open>send\<close> took from the front of the write buffer. Each is a new
  state of the connection behind a check that it stays inside the vector.
\<close>

definition after_received :: "byte list \<Rightarrow> nat \<Rightarrow> Connection \<Rightarrow> Connection" where
  "after_received bytes n c =
     c\<lparr>read_buffer := blit (read_buffer c) (read_idx c) bytes, read_idx := usz_add (read_idx c) n\<rparr>"

definition store_received :: "byte list \<Rightarrow> nat \<Rightarrow> (Connection \<times> 'w, unit) prog" where
  "store_received bytes n = bnd (gets fst) (\<lambda>c.
     andthen (guard (read_idx c + length bytes \<le> length (read_buffer c)) ''recv beyond read_buffer_'')
       (modify (\<lambda>(c, w). (after_received bytes n c, w))))"

definition after_sent :: "nat \<Rightarrow> Connection \<Rightarrow> Connection" where
  "after_sent n c =
     c\<lparr>write_buffer := shift_down (write_buffer c) n (usz_sub (write_idx c) n),
       write_idx := usz_sub (write_idx c) n\<rparr>"

definition drop_sent :: "nat \<Rightarrow> (Connection \<times> 'w, unit) prog" where
  "drop_sent n = bnd (gets fst) (\<lambda>c.
     andthen (guard (n + usz_sub (write_idx c) n \<le> length (write_buffer c)) ''memmove beyond write_buffer_'')
       (modify (\<lambda>(c, w). (after_sent n c, w))))"

definition Connection_Recv :: "'k os \<Rightarrow> (Connection \<times> ('k, 'z) sysw_scheme, int) prog" where
  "Connection_Recv os = bnd (gets fst) (\<lambda>c0.
     if conn_state c0 = CLOSED then ret (- 1)
     else andthen (CheckAndResizeReadBuffer os) (bnd (gets fst) (\<lambda>c.
       bnd (on_snd (syscall os (Sys_recv (conn_fd c) (usz_sub (length (read_buffer c)) (read_idx c))))) (\<lambda>r.
       andthen
         (if 0 < rp_ret r
          then andthen (store_received (rp_bytes r) (nat (rp_ret r)))
              (andthen (Connection_UpdateHeartbeat os)
                 (on_snd (LOG DEBUG (''Connection recv: '' @ conn_name c @ '', bytes='' @ to_string (rp_ret r)))))
          else io_failed os ''recv'' (rp_ret r))
         (ret (rp_ret r))))))"

definition Connection_Send :: "'k os \<Rightarrow> (Connection \<times> ('k, 'z) sysw_scheme, int) prog" where
  "Connection_Send os = bnd (gets fst) (\<lambda>c.
     if conn_state c = CLOSED then ret (- 1)
     else if write_idx c = 0 then ret 0
     else andthen (guard (write_idx c \<le> length (write_buffer c)) ''send beyond write_buffer_'')
      (bnd (on_snd (syscall os (Sys_send (conn_fd c) (take (write_idx c) (write_buffer c))))) (\<lambda>r.
       andthen
         (if 0 < rp_ret r
          then andthen (drop_sent (nat (rp_ret r)))
              (andthen (Connection_UpdateHeartbeat os)
                 (on_snd (LOG DEBUG (''Connection send: '' @ conn_name c @ '', bytes='' @ to_string (rp_ret r)))))
          else io_failed os ''send'' (rp_ret r))
         (ret (rp_ret r)))))"

definition Connection_HasPendingData :: "Connection \<Rightarrow> bool" where
  "Connection_HasPendingData c = (0 < write_idx c)"

definition Connection_GetReadBufferSize :: "Connection \<Rightarrow> size_t" where
  "Connection_GetReadBufferSize c = read_idx c"

definition Connection_GetWriteBufferSize :: "Connection \<Rightarrow> size_t" where
  "Connection_GetWriteBufferSize c = write_idx c"

definition Connection_GetReadBuffer :: "Connection \<Rightarrow> byte list" where
  "Connection_GetReadBuffer c = read_buffer c"

definition after_consumed :: "size_t \<Rightarrow> Connection \<Rightarrow> Connection" where
  "after_consumed len c =
     (if read_idx c \<le> len then c\<lparr>read_idx := 0\<rparr>
      else c\<lparr>read_buffer := shift_down (read_buffer c) len (usz_sub (read_idx c) len),
             read_idx := usz_sub (read_idx c) len\<rparr>)"

definition Connection_ConsumeReadBuffer :: "size_t \<Rightarrow> (Connection \<times> 'w, unit) prog" where
  "Connection_ConsumeReadBuffer len = bnd (gets fst) (\<lambda>c.
     andthen (guard (read_idx c \<le> len \<or> len + usz_sub (read_idx c) len \<le> length (read_buffer c))
                ''memmove beyond read_buffer_'')
       (modify (\<lambda>(c, w). (after_consumed len c, w))))"

text \<open>
  The \<open>len\<close> bytes at the pointer \<open>data\<close> are the argument; \<open>copy_bytes\<close> is the \<open>memcpy\<close> and
  the step of the fill mark.
\<close>

definition after_copy :: "byte list \<Rightarrow> Connection \<Rightarrow> Connection" where
  "after_copy bytes c =
     c\<lparr>write_buffer := blit (write_buffer c) (write_idx c) bytes,
       write_idx := usz_add (write_idx c) (length bytes)\<rparr>"

definition copy_bytes :: "byte list \<Rightarrow> (Connection \<times> 'w, unit) prog" where
  "copy_bytes bytes = bnd (gets fst) (\<lambda>c.
     andthen (guard (write_idx c + length bytes \<le> length (write_buffer c)) ''memcpy beyond write_buffer_'')
       (modify (\<lambda>(c, w). (after_copy bytes c, w))))"

definition Connection_AppendWriteBuffer :: "'k os \<Rightarrow> byte list \<Rightarrow> (Connection \<times> ('k, 'z) sysw_scheme, unit) prog" where
  "Connection_AppendWriteBuffer os bytes = bnd (gets fst) (\<lambda>c0.
     andthen (if length (write_buffer c0) < usz_add (write_idx c0) (length bytes)
              then let new_size = max (usz_mul (length (write_buffer c0)) 2) (usz_add (write_idx c0) (length bytes))
                   in resize_prog os (\<lambda>c. c\<lparr>write_buffer := vec_resize (write_buffer c) new_size\<rparr>) new_size
              else ret ())
    (andthen (copy_bytes bytes)
    (bnd (gets fst) (\<lambda>c.
       on_snd (LOG DEBUG (''Connection append write buffer: '' @ conn_name c @ '', bytes='' @
         to_string (int (length bytes)) @ '', total='' @ to_string (int (write_idx c))))))))"

definition Connection_Close :: "'k os \<Rightarrow> (Connection \<times> ('k, 'z) sysw_scheme, unit) prog" where
  "Connection_Close os = bnd (gets fst) (\<lambda>c.
     doif (conn_state c \<noteq> CLOSED)
       (andthen set_closed
         (doif (conn_fd c \<noteq> - 1)
           (andthen (on_snd (LOG INFO (''Connection closed: '' @ conn_name c @ '', fd='' @ to_string (conn_fd c))))
             (bnd (on_snd (syscall os (Sys_close (conn_fd c)))) (\<lambda>_.
                modify (\<lambda>(c, w). (c\<lparr>conn_fd := - 1\<rparr>, w))))))))"

definition Connection_delete :: "'k os \<Rightarrow> (Connection \<times> ('k, 'z) sysw_scheme, unit) prog" where
  "Connection_delete os = Connection_Close os"

section \<open>Invariant and content\<close>

definition conn_inv :: "Connection \<Rightarrow> bool" where
  "conn_inv c \<longleftrightarrow> read_idx c \<le> length (read_buffer c) \<and> length (read_buffer c) < 2 ^ 63 \<and>
     write_idx c \<le> length (write_buffer c) \<and> length (write_buffer c) < 2 ^ 63"

definition unread :: "Connection \<Rightarrow> byte list" where
  "unread c = take (read_idx c) (read_buffer c)"

definition unsent :: "Connection \<Rightarrow> byte list" where
  "unsent c = take (write_idx c) (write_buffer c)"

text \<open>
  The size of the write buffer after the check in \<open>AppendWriteBuffer\<close>, and the effect of
  the whole operation on the connection.
\<close>

definition grown_size :: "nat \<Rightarrow> Connection \<Rightarrow> size_t" where
  "grown_size len c =
     (if length (write_buffer c) < usz_add (write_idx c) len
      then max (usz_mul (length (write_buffer c)) 2) (usz_add (write_idx c) len)
      else length (write_buffer c))"

definition append_bytes :: "byte list \<Rightarrow> Connection \<Rightarrow> Connection" where
  "append_bytes bytes c =
     after_copy bytes (c\<lparr>write_buffer := vec_resize (write_buffer c) (grown_size (length bytes) c)\<rparr>)"

text \<open>Room for \<open>n\<close> more bytes: the write buffer grows, the read buffer has a fixed size here.\<close>

definition write_room :: "Connection \<Rightarrow> nat \<Rightarrow> bool" where
  "write_room c n \<longleftrightarrow> 2 * length (write_buffer c) < 2 ^ 63 \<and> write_idx c + n < 2 ^ 63"

definition read_room :: "Connection \<Rightarrow> nat \<Rightarrow> bool" where
  "read_room c n \<longleftrightarrow> read_idx c + n \<le> length (read_buffer c)"

text \<open>Steps of a connection, whatever the kernel replies; an exception is a step too.\<close>

inductive conn_step :: "'k os \<Rightarrow> Connection \<times> ('k, 'z) sysw_scheme \<Rightarrow> Connection \<times> ('k, 'z) sysw_scheme \<Rightarrow> bool" for os where
  step_recv: "conn_step os cw (snd (Connection_Recv os cw))"
| step_send: "conn_step os cw (snd (Connection_Send os cw))"
| step_append: "length bytes < 2 ^ 63 \<Longrightarrow> conn_step os cw (snd (Connection_AppendWriteBuffer os bytes cw))"
| step_consume: "conn_step os cw (snd (Connection_ConsumeReadBuffer len cw))"
| step_state: "conn_step os cw (snd (Connection_SetState st cw))"
| step_heartbeat: "conn_step os cw (snd (Connection_UpdateHeartbeat os cw))"
| step_close: "conn_step os cw (snd (Connection_Close os cw))"

section \<open>Lemmas\<close>

lemma conn_invD:
  assumes "conn_inv c"
  shows "read_idx c \<le> length (read_buffer c)" "length (read_buffer c) < 2 ^ 63"
    "write_idx c \<le> length (write_buffer c)" "length (write_buffer c) < 2 ^ 63"
    "read_idx c < 2 ^ 63" "write_idx c < 2 ^ 63" "length (unsent c) = write_idx c" "length (unread c) = read_idx c"
  using assms by (auto simp: conn_inv_def unsent_def unread_def)

lemma grown_size_ge:
  assumes "conn_inv c" "n < 2 ^ 63"
  shows "write_idx c + n \<le> grown_size n c"
  using conn_invD [OF assms(1)] assms(2) by (simp add: grown_size_def usz_simps)

lemma append_bytes_spec:
  assumes "conn_inv c" "length bs < 2 ^ 63" "grown_size (length bs) c < 2 ^ 63"
  shows "conn_inv (append_bytes bs c)" "unsent (append_bytes bs c) = unsent c @ bs"
proof -
  note inv = conn_invD [OF assms(1)] and g = grown_size_ge [OF assms(1,2)]
  have idx: "usz_add (write_idx c) (length bs) = write_idx c + length bs"
    using inv assms(2) by (simp add: usz_simps)
  have len: "length (vec_resize (write_buffer c) (grown_size (length bs) c)) = grown_size (length bs) c"
    by (simp add: buf_simps)
  show "conn_inv (append_bytes bs c)"
    using assms(1,3) g by (simp add: append_bytes_def after_copy_def conn_inv_def idx buf_simps len)
  show "unsent (append_bytes bs c) = unsent c @ bs"
    using g inv(3) by (simp add: append_bytes_def after_copy_def unsent_def idx take_blit len take_vec_resize)
qed

lemma after_sent_spec:
  assumes "conn_inv c" "n \<le> length (unsent c)"
  shows "conn_inv (after_sent n c)" "unsent (after_sent n c) = drop n (unsent c)"
proof -
  note inv = conn_invD [OF assms(1)]
  have n: "n \<le> write_idx c" using assms(2) inv(7) by simp
  then have idx: "usz_sub (write_idx c) n = write_idx c - n" using inv(6) by (simp add: usz_simps)
  show "conn_inv (after_sent n c)" "unsent (after_sent n c) = drop n (unsent c)"
    using assms(1) n inv(3)
    by (simp_all add: after_sent_def conn_inv_def unsent_def idx buf_simps drop_take)
qed

lemma after_received_spec:
  assumes "conn_inv c" "read_room c (length bs)"
  shows "conn_inv (after_received bs (length bs) c)"
    "unread (after_received bs (length bs) c) = unread c @ bs"
proof -
  note inv = conn_invD [OF assms(1)]
  have idx: "usz_add (read_idx c) (length bs) = read_idx c + length bs"
    using inv assms(2) by (simp add: read_room_def usz_simps)
  show "conn_inv (after_received bs (length bs) c)"
    "unread (after_received bs (length bs) c) = unread c @ bs"
    using assms by (simp_all add: after_received_def conn_inv_def unread_def read_room_def idx buf_simps)
qed

lemma after_consumed_spec:
  assumes "conn_inv c"
  shows "conn_inv (after_consumed n c)"
    "unread (after_consumed n c) = drop n (unread c)"
proof -
  note inv = conn_invD [OF assms]
  have idx: "usz_sub (read_idx c) n = read_idx c - n" if "\<not> read_idx c \<le> n"
    using that inv by (simp add: usz_simps)
  show "conn_inv (after_consumed n c)"
    "unread (after_consumed n c) = drop n (unread c)"
    using assms idx
    by (auto simp: after_consumed_def conn_inv_def unread_def buf_simps drop_take)
qed

lemma write_room_grown:
  assumes "conn_inv c" "write_room c n"
  shows "n < 2 ^ 63" "grown_size n c < 2 ^ 63"
  using assms conn_invD [OF assms(1)] by (auto simp: write_room_def grown_size_def usz_simps)

lemma append_room_spec:
  assumes "conn_inv c" "write_room c (length bs)"
  shows "conn_inv (append_bytes bs c)" "unsent (append_bytes bs c) = unsent c @ bs"
  using append_bytes_spec [OF assms(1) write_room_grown [OF assms]] .

interpretation wbuf: byte_fifo conn_inv unsent write_room append_bytes after_sent
  by unfold_locales (simp_all add: append_room_spec after_sent_spec)

interpretation rbuf: byte_fifo conn_inv unread read_room
  "\<lambda>bs. after_received bs (length bs)" after_consumed
  by unfold_locales (auto simp: after_received_spec after_consumed_spec)

text \<open>The guarded accesses inside the vectors.\<close>

lemma access_eval [prog_simps]:
  "store_received bs n (c, w) = (if read_idx c + length bs \<le> length (read_buffer c)
     then (Inr (), (after_received bs n c, w)) else (Inl (Undefined_behaviour ''recv beyond read_buffer_''), (c, w)))"
  "drop_sent n (c, w) = (if n + usz_sub (write_idx c) n \<le> length (write_buffer c)
     then (Inr (), (after_sent n c, w)) else (Inl (Undefined_behaviour ''memmove beyond write_buffer_''), (c, w)))"
  "copy_bytes bs (c, w) = (if write_idx c + length bs \<le> length (write_buffer c)
     then (Inr (), (after_copy bs c, w)) else (Inl (Undefined_behaviour ''memcpy beyond write_buffer_''), (c, w)))"
  by (simp_all add: store_received_def drop_sent_def copy_bytes_def prog_simps)

lemma resize_prog_eval [prog_simps]:
  "resize_prog os f n (c, w) = (if 2 ^ 63 \<le> n then (Inl Length_error, (c, w))
     else if os_grant os (kst w) n then (Inr (), (f c, w)) else (Inl Bad_alloc, (c, w)))"
  by (simp add: resize_prog_def prog_simps)

lemma ConsumeReadBuffer_eval:
  assumes "conn_inv c"
  shows "Connection_ConsumeReadBuffer len (c, w) = (Inr (), (after_consumed len c, w))"
proof -
  have "len + usz_sub (read_idx c) len \<le> length (read_buffer c)" if "\<not> read_idx c \<le> len"
    using that conn_invD [OF assms] by (simp add: usz_simps)
  then show ?thesis by (auto simp: Connection_ConsumeReadBuffer_def prog_simps)
qed

text \<open>Whether the memory for a growing buffer is there, and the exception when it is not.\<close>

definition write_granted :: "'k os \<Rightarrow> 'k \<Rightarrow> nat \<Rightarrow> Connection \<Rightarrow> bool" where
  "write_granted os k n c \<longleftrightarrow> grown_size n c = length (write_buffer c) \<or> os_grant os k (grown_size n c)"

definition resize_error :: "size_t \<Rightarrow> exn" where
  "resize_error n = (if 2 ^ 63 \<le> n then Length_error else Bad_alloc)"

lemma AppendWriteBuffer_eval:
  assumes "conn_inv c" "length bs < 2 ^ 63"
  shows "Connection_AppendWriteBuffer os bs (c, w) =
    (if 2 ^ 63 \<le> grown_size (length bs) c \<or> \<not> write_granted os (kst w) (length bs) c
     then (Inl (resize_error (grown_size (length bs) c)), (c, w))
     else (Inr (), (append_bytes bs c, w\<lparr>logs := logs w @ [(DEBUG,
        ''Connection append write buffer: '' @ conn_name c @ '', bytes='' @ to_string (int (length bs)) @
        '', total='' @ to_string (int (write_idx (append_bytes bs c))))]\<rparr>)))"
proof (cases "length (write_buffer c) < usz_add (write_idx c) (length bs)")
  case True
  have room: "write_idx c + length bs \<le> grown_size (length bs) c" by (rule grown_size_ge [OF assms])
  have "grown_size (length bs) c \<noteq> length (write_buffer c)" using True by (simp add: grown_size_def)
  then show ?thesis
    using True room
    by (simp add: Connection_AppendWriteBuffer_def prog_simps write_granted_def resize_error_def
        append_bytes_def conn_name_def Let_def buf_simps grown_size_def after_copy_def)
next
  case False
  then have g: "grown_size (length bs) c = length (write_buffer c)"
    by (simp add: grown_size_def)
  have "append_bytes bs c = after_copy bs c" unfolding append_bytes_def g by simp
  then show ?thesis
    using False conn_invD [OF assms(1)] grown_size_ge [OF assms] g
    by (simp add: Connection_AppendWriteBuffer_def prog_simps write_granted_def after_copy_def conn_name_def)
qed

text \<open>Growing the read buffer keeps its content and leaves room for at least 1024 bytes.\<close>

definition read_grown :: "Connection \<Rightarrow> Connection" where
  "read_grown c =
     (if usz_sub (length (read_buffer c)) (read_idx c) < 1024
      then c\<lparr>read_buffer := vec_resize (read_buffer c)
               (max (usz_mul (length (read_buffer c)) 2) (usz_add (read_idx c) 4096))\<rparr>
      else c)"

definition read_granted :: "'k os \<Rightarrow> 'k \<Rightarrow> Connection \<Rightarrow> bool" where
  "read_granted os k c \<longleftrightarrow> read_grown c = c \<or> os_grant os k (length (read_buffer (read_grown c)))"

lemma CheckAndResizeReadBuffer_eval:
  assumes "conn_inv c"
  shows "CheckAndResizeReadBuffer os (c, w) =
    (if 2 ^ 63 \<le> length (read_buffer (read_grown c)) \<or> \<not> read_granted os (kst w) c
     then (Inl (resize_error (length (read_buffer (read_grown c)))), (c, w))
     else (Inr (), (read_grown c, w)))"
proof (cases "usz_sub (length (read_buffer c)) (read_idx c) < 1024")
  case True
  let ?n = "max (usz_mul (length (read_buffer c)) 2) (usz_add (read_idx c) 4096)"
  have g: "read_grown c = c\<lparr>read_buffer := vec_resize (read_buffer c) ?n\<rparr>"
    using True by (simp add: read_grown_def)
  have len: "length (read_buffer (read_grown c)) = ?n" by (simp add: g buf_simps)
  have "length (read_buffer c) < ?n"
    using True conn_invD [OF assms] by (simp add: usz_simps)
  then have "read_grown c \<noteq> c" using len by (metis less_irrefl)
  with True show ?thesis
    by (simp only: CheckAndResizeReadBuffer_def read_granted_def len)
      (simp add: prog_simps Let_def g resize_error_def)
next
  case False
  then show ?thesis
    using conn_invD [OF assms]
    by (simp add: CheckAndResizeReadBuffer_def prog_simps read_grown_def read_granted_def)
qed

lemma read_grown_spec:
  assumes "conn_inv c"
  shows "length (read_buffer (read_grown c)) < 2 ^ 63 \<Longrightarrow> conn_inv (read_grown c)"
    "unread (read_grown c) = unread c" "1024 \<le> length (read_buffer (read_grown c)) - read_idx c"
    "unsent (read_grown c) = unsent c" "read_idx (read_grown c) = read_idx c"
    "conn_state (read_grown c) = conn_state c" "conn_fd (read_grown c) = conn_fd c"
    "conn_name (read_grown c) = conn_name c"
proof -
  note inv = conn_invD [OF assms]
  have sub: "usz_sub (length (read_buffer c)) (read_idx c) = length (read_buffer c) - read_idx c"
    and add: "usz_add (read_idx c) 4096 = read_idx c + 4096"
    and mul: "usz_mul (length (read_buffer c)) 2 = length (read_buffer c) * 2"
    using inv by (simp_all add: usz_simps)
  show "length (read_buffer (read_grown c)) < 2 ^ 63 \<Longrightarrow> conn_inv (read_grown c)"
    using assms by (auto simp: read_grown_def conn_inv_def sub add mul buf_simps)
  show "unread (read_grown c) = unread c" "1024 \<le> length (read_buffer (read_grown c)) - read_idx c"
    using inv(1) by (auto simp: read_grown_def unread_def sub add mul buf_simps)
qed (simp_all add: read_grown_def unsent_def conn_name_def)

text \<open>
  The four ways in which \<open>Recv\<close> ends after the system call. \<open>recv_size\<close> is the number of
  bytes it asks for.
\<close>

definition recv_size :: "Connection \<Rightarrow> nat" where
  "recv_size c = length (read_buffer (read_grown c)) - read_idx c"

definition can_recv :: "'k os \<Rightarrow> 'k \<Rightarrow> Connection \<Rightarrow> bool" where
  "can_recv os k c \<longleftrightarrow> conn_inv c \<and> conn_state c \<noteq> CLOSED \<and> length (read_buffer (read_grown c)) < 2 ^ 63 \<and>
     read_granted os k c"

lemma Recv_closed: "conn_state c = CLOSED \<Longrightarrow> Connection_Recv os (c, w) = (Inr (- 1), (c, w))"
  by (simp add: Connection_Recv_def prog_simps)

lemma Recv_too_long:
  assumes "conn_inv c" "conn_state c \<noteq> CLOSED" "\<not> can_recv os (kst w) c"
  shows "Connection_Recv os (c, w) = (Inl (resize_error (length (read_buffer (read_grown c)))), (c, w))"
  using assms
  by (auto simp: Connection_Recv_def prog_simps CheckAndResizeReadBuffer_eval can_recv_def)

lemma can_recvD:
  assumes "can_recv os k c"
  shows "conn_inv c" "conn_inv (read_grown c)" "conn_state c \<noteq> CLOSED" "1024 \<le> recv_size c"
    "n \<le> recv_size c \<Longrightarrow> read_room (read_grown c) n"
proof -
  show inv: "conn_inv c" "conn_state c \<noteq> CLOSED" using assms by (simp_all add: can_recv_def)
  show "conn_inv (read_grown c)" "1024 \<le> recv_size c"
    using assms read_grown_spec [OF inv(1)] by (simp_all add: can_recv_def recv_size_def)
  show "n \<le> recv_size c \<Longrightarrow> read_room (read_grown c) n"
    using read_grown_spec(3,5) [OF inv(1)] by (simp add: read_room_def recv_size_def)
qed

lemma can_recv_sub:
  "can_recv os k c \<Longrightarrow> usz_sub (length (read_buffer (read_grown c))) (read_idx (read_grown c)) = recv_size c"
  using read_grown_spec(1,5) [of c] conn_invD(1) [of "read_grown c"]
  by (simp add: can_recv_def recv_size_def usz_simps)

lemmas recv_simps = Connection_Recv_def prog_simps CheckAndResizeReadBuffer_eval
  Connection_UpdateHeartbeat_def io_failed_def set_closed_def

lemma Recv_data:
  assumes "recv_ok os" "can_recv os (kst w) c" "os_call os (kst w) (Sys_recv (conn_fd c) (recv_size c)) = (r, k)" "0 < rp_ret r"
    "os_call os k Sys_clock = (t, k')"
  shows "Connection_Recv os (c, w) = (Inr (rp_ret r),
    ((after_received (rp_bytes r) (nat (rp_ret r)) (read_grown c))\<lparr>last_heartbeat := rp_ret t\<rparr>,
     w\<lparr>kst := k', calls := calls w @ [Sys_recv (conn_fd c) (recv_size c)],
       logs := logs w @ [(DEBUG, ''Connection recv: '' @ conn_name c @ '', bytes='' @ to_string (rp_ret r))]\<rparr>))"
proof -
  have "read_room (read_grown c) (length (rp_bytes r))"
    using can_recvD(5) [OF assms(2)] recv_okD(2,3) [OF assms(1,3)] assms(4) by simp
  then show ?thesis
    using assms can_recv_sub [OF assms(2)]
    by (simp add: recv_simps can_recv_def read_grown_spec read_room_def)
qed

lemma Recv_eof:
  assumes "can_recv os (kst w) c" "os_call os (kst w) (Sys_recv (conn_fd c) (recv_size c)) = (r, k)" "rp_ret r = 0"
  shows "Connection_Recv os (c, w) = (Inr 0, ((read_grown c)\<lparr>conn_state := CLOSED\<rparr>,
     w\<lparr>kst := k, calls := calls w @ [Sys_recv (conn_fd c) (recv_size c)],
       logs := logs w @ [(INFO, ''Connection closed by peer: '' @ conn_name c)]\<rparr>))"
  using assms can_recv_sub [OF assms(1)]
  by (simp add: recv_simps can_recv_def read_grown_spec)

lemma Recv_again:
  assumes "can_recv os (kst w) c" "os_call os (kst w) (Sys_recv (conn_fd c) (recv_size c)) = (r, k)" "rp_ret r < 0"
    "rp_errno r = EAGAIN \<or> rp_errno r = EWOULDBLOCK"
  shows "Connection_Recv os (c, w) = (Inr (rp_ret r), (read_grown c,
     w\<lparr>kst := k, errno := rp_errno r, calls := calls w @ [Sys_recv (conn_fd c) (recv_size c)]\<rparr>))"
  using assms can_recv_sub [OF assms(1)]
  by (auto simp: recv_simps can_recv_def read_grown_spec)

lemma Recv_error:
  assumes "can_recv os (kst w) c" "os_call os (kst w) (Sys_recv (conn_fd c) (recv_size c)) = (r, k)" "rp_ret r < 0"
    "rp_errno r \<noteq> EAGAIN" "rp_errno r \<noteq> EWOULDBLOCK"
  shows "Connection_Recv os (c, w) = (Inr (rp_ret r), ((read_grown c)\<lparr>conn_state := CLOSED\<rparr>,
     w\<lparr>kst := k, errno := rp_errno r, calls := calls w @ [Sys_recv (conn_fd c) (recv_size c)],
       logs := logs w @ [(ERROR, ''Connection recv error: '' @ conn_name c @ '', errno='' @
         to_string (rp_errno r) @ '' ('' @ os_strerror os (rp_errno r) @ '')'')]\<rparr>))"
  using assms can_recv_sub [OF assms(1)]
  by (simp add: recv_simps can_recv_def read_grown_spec)

text \<open>The same for \<open>Send\<close>.\<close>

definition can_send :: "Connection \<Rightarrow> bool" where
  "can_send c \<longleftrightarrow> conn_inv c \<and> conn_state c \<noteq> CLOSED \<and> 0 < write_idx c"

lemmas send_simps = Connection_Send_def prog_simps Connection_UpdateHeartbeat_def io_failed_def
  set_closed_def can_send_def unsent_def

lemma Send_closed: "conn_state c = CLOSED \<Longrightarrow> Connection_Send os (c, w) = (Inr (- 1), (c, w))"
  by (simp add: Connection_Send_def prog_simps)

lemma Send_nothing:
  "conn_state c \<noteq> CLOSED \<Longrightarrow> write_idx c = 0 \<Longrightarrow> Connection_Send os (c, w) = (Inr 0, (c, w))"
  by (simp add: Connection_Send_def prog_simps)

lemma Send_data:
  assumes "send_ok os" "can_send c" "os_call os (kst w) (Sys_send (conn_fd c) (unsent c)) = (r, k)" "0 < rp_ret r"
    "os_call os k Sys_clock = (t, k')"
  shows "Connection_Send os (c, w) = (Inr (rp_ret r),
    ((after_sent (nat (rp_ret r)) c)\<lparr>last_heartbeat := rp_ret t\<rparr>,
     w\<lparr>kst := k', calls := calls w @ [Sys_send (conn_fd c) (unsent c)],
       logs := logs w @ [(DEBUG, ''Connection send: '' @ conn_name c @ '', bytes='' @ to_string (rp_ret r))]\<rparr>))"
proof -
  have "write_idx c \<le> length (write_buffer c)" "write_idx c < 2 ^ 64" "rp_ret r \<le> int (write_idx c)"
    using conn_invD [of c] assms(2) send_okD(2) [OF assms(1,3)] by (simp_all add: can_send_def)
  then have "nat (rp_ret r) + usz_sub (write_idx c) (nat (rp_ret r)) \<le> length (write_buffer c)"
    by (simp add: usz_simps)
  then show ?thesis using assms conn_invD(3) [of c] by (simp add: send_simps)
qed

lemma Send_zero:
  assumes "can_send c" "os_call os (kst w) (Sys_send (conn_fd c) (unsent c)) = (r, k)" "rp_ret r = 0"
  shows "Connection_Send os (c, w) = (Inr 0, (c\<lparr>conn_state := CLOSED\<rparr>,
     w\<lparr>kst := k, calls := calls w @ [Sys_send (conn_fd c) (unsent c)],
       logs := logs w @ [(INFO, ''Connection closed by peer: '' @ conn_name c)]\<rparr>))"
  using assms conn_invD(3) [of c] by (simp add: send_simps)

lemma Send_again:
  assumes "can_send c" "os_call os (kst w) (Sys_send (conn_fd c) (unsent c)) = (r, k)" "rp_ret r < 0"
    "rp_errno r = EAGAIN \<or> rp_errno r = EWOULDBLOCK"
  shows "Connection_Send os (c, w) = (Inr (rp_ret r), (c,
     w\<lparr>kst := k, errno := rp_errno r, calls := calls w @ [Sys_send (conn_fd c) (unsent c)]\<rparr>))"
  using assms conn_invD(3) [of c] by (auto simp: send_simps)

lemma Send_error:
  assumes "can_send c" "os_call os (kst w) (Sys_send (conn_fd c) (unsent c)) = (r, k)" "rp_ret r < 0"
    "rp_errno r \<noteq> EAGAIN" "rp_errno r \<noteq> EWOULDBLOCK"
  shows "Connection_Send os (c, w) = (Inr (rp_ret r), (c\<lparr>conn_state := CLOSED\<rparr>,
     w\<lparr>kst := k, errno := rp_errno r, calls := calls w @ [Sys_send (conn_fd c) (unsent c)],
       logs := logs w @ [(ERROR, ''Connection send error: '' @ conn_name c @ '', errno='' @
         to_string (rp_errno r) @ '' ('' @ os_strerror os (rp_errno r) @ '')'')]\<rparr>))"
  using assms conn_invD(3) [of c] by (simp add: send_simps)

lemma Close_eval:
  "Connection_Close os (c, w) =
    (if conn_state c = CLOSED then (Inr (), (c, w))
     else if conn_fd c = - 1 then (Inr (), (c\<lparr>conn_state := CLOSED\<rparr>, w))
     else let (r, k) = os_call os (kst w) (Sys_close (conn_fd c))
          in (Inr (), (c\<lparr>conn_state := CLOSED, conn_fd := - 1\<rparr>,
               w\<lparr>kst := k, errno := (if rp_ret r < 0 then rp_errno r else errno w),
                 calls := calls w @ [Sys_close (conn_fd c)],
                 logs := logs w @ [(INFO, ''Connection closed: '' @ conn_name c @ '', fd='' @ to_string (conn_fd c))]\<rparr>)))"
  by (simp add: Connection_Close_def prog_simps set_closed_def conn_name_def split: prod.split)

text \<open>
  What one call does to the buffers, for every reply of the kernel.
\<close>

lemma Recv_cases:
  assumes "recv_ok os" "conn_inv c" "Connection_Recv os (c, w) = (res, (c', w'))"
  obtains (closed) "conn_state c = CLOSED" "res = Inr (- 1)" "c' = c" "w' = w"
  | (limit) "conn_state c \<noteq> CLOSED" "\<not> can_recv os (kst w) c" "res = Inl (resize_error (length (read_buffer (read_grown c))))" "c' = c" "w' = w"
  | (data) r k t k' where "can_recv os (kst w) c" "os_call os (kst w) (Sys_recv (conn_fd c) (recv_size c)) = (r, k)"
      "0 < rp_ret r" "os_call os k Sys_clock = (t, k')" "res = Inr (rp_ret r)"
      "c' = (after_received (rp_bytes r) (length (rp_bytes r)) (read_grown c))\<lparr>last_heartbeat := rp_ret t\<rparr>"
      "w' = w\<lparr>kst := k', calls := calls w @ [Sys_recv (conn_fd c) (recv_size c)],
       logs := logs w @ [(DEBUG, ''Connection recv: '' @ conn_name c @ '', bytes='' @ to_string (rp_ret r))]\<rparr>"
  | (eof) r k where "can_recv os (kst w) c" "os_call os (kst w) (Sys_recv (conn_fd c) (recv_size c)) = (r, k)"
      "rp_ret r = 0" "res = Inr 0" "c' = (read_grown c)\<lparr>conn_state := CLOSED\<rparr>"
      "w' = w\<lparr>kst := k, calls := calls w @ [Sys_recv (conn_fd c) (recv_size c)],
       logs := logs w @ [(INFO, ''Connection closed by peer: '' @ conn_name c)]\<rparr>"
  | (again) r k where "can_recv os (kst w) c" "os_call os (kst w) (Sys_recv (conn_fd c) (recv_size c)) = (r, k)"
      "rp_ret r = - 1" "rp_errno r = EAGAIN \<or> rp_errno r = EWOULDBLOCK" "res = Inr (- 1)" "c' = read_grown c"
      "w' = w\<lparr>kst := k, errno := rp_errno r, calls := calls w @ [Sys_recv (conn_fd c) (recv_size c)]\<rparr>"
  | (error) r k where "can_recv os (kst w) c" "os_call os (kst w) (Sys_recv (conn_fd c) (recv_size c)) = (r, k)"
      "rp_ret r = - 1" "rp_errno r \<noteq> EAGAIN" "rp_errno r \<noteq> EWOULDBLOCK" "res = Inr (- 1)"
      "c' = (read_grown c)\<lparr>conn_state := CLOSED\<rparr>"
      "w' = w\<lparr>kst := k, errno := rp_errno r, calls := calls w @ [Sys_recv (conn_fd c) (recv_size c)],
       logs := logs w @ [(ERROR, ''Connection recv error: '' @ conn_name c @ '', errno='' @
         to_string (rp_errno r) @ '' ('' @ os_strerror os (rp_errno r) @ '')'')]\<rparr>"
proof (cases "can_recv os (kst w) c")
  case False
  show ?thesis
  proof (cases "conn_state c = CLOSED")
    case True
    then show ?thesis by (rule closed) (use assms(3) Recv_closed [OF True, of os w] in simp_all)
  next
    case live: False
    then show ?thesis
      by (rule limit [OF _ False]) (use assms(3) Recv_too_long [OF assms(2) live False] in auto)
  qed
next
  case can: True
  obtain r k where call: "os_call os (kst w) (Sys_recv (conn_fd c) (recv_size c)) = (r, k)" by force
  obtain t k' where clock: "os_call os k Sys_clock = (t, k')" by force
  note ok = recv_okD [OF assms(1) call]
  consider "0 < rp_ret r" | "rp_ret r = 0"
    | "rp_ret r = - 1" "rp_errno r = EAGAIN \<or> rp_errno r = EWOULDBLOCK"
    | "rp_ret r = - 1" "rp_errno r \<noteq> EAGAIN" "rp_errno r \<noteq> EWOULDBLOCK"
    using ok(1) by linarith
  then show ?thesis
  proof cases
    case 1
    then show ?thesis
      using data [OF can call 1 clock] Recv_data [OF assms(1) can call 1 clock] ok(3) assms(3) by simp
  next
    case 2
    then show ?thesis using eof [OF can call] Recv_eof [OF can call] assms(3) by simp
  next
    case 3
    then show ?thesis using again [OF can call] Recv_again [OF can call] assms(3) by simp
  next
    case 4
    then show ?thesis using error [OF can call] Recv_error [OF can call] assms(3) by simp
  qed
qed

lemma Send_cases:
  assumes "send_ok os" "conn_inv c" "Connection_Send os (c, w) = (res, (c', w'))"
  obtains (closed) "conn_state c = CLOSED" "res = Inr (- 1)" "c' = c" "w' = w"
  | (nothing) "conn_state c \<noteq> CLOSED" "unsent c = []" "res = Inr 0" "c' = c" "w' = w"
  | (data) r k t k' where "can_send c" "os_call os (kst w) (Sys_send (conn_fd c) (unsent c)) = (r, k)"
      "0 < rp_ret r" "nat (rp_ret r) \<le> length (unsent c)" "os_call os k Sys_clock = (t, k')" "res = Inr (rp_ret r)"
      "c' = (after_sent (nat (rp_ret r)) c)\<lparr>last_heartbeat := rp_ret t\<rparr>"
      "w' = w\<lparr>kst := k', calls := calls w @ [Sys_send (conn_fd c) (unsent c)],
       logs := logs w @ [(DEBUG, ''Connection send: '' @ conn_name c @ '', bytes='' @ to_string (rp_ret r))]\<rparr>"
  | (zero) r k where "can_send c" "os_call os (kst w) (Sys_send (conn_fd c) (unsent c)) = (r, k)"
      "rp_ret r = 0" "res = Inr 0" "c' = c\<lparr>conn_state := CLOSED\<rparr>"
      "w' = w\<lparr>kst := k, calls := calls w @ [Sys_send (conn_fd c) (unsent c)],
       logs := logs w @ [(INFO, ''Connection closed by peer: '' @ conn_name c)]\<rparr>"
  | (again) r k where "can_send c" "os_call os (kst w) (Sys_send (conn_fd c) (unsent c)) = (r, k)"
      "rp_ret r = - 1" "rp_errno r = EAGAIN \<or> rp_errno r = EWOULDBLOCK" "res = Inr (- 1)" "c' = c"
      "w' = w\<lparr>kst := k, errno := rp_errno r, calls := calls w @ [Sys_send (conn_fd c) (unsent c)]\<rparr>"
  | (error) r k where "can_send c" "os_call os (kst w) (Sys_send (conn_fd c) (unsent c)) = (r, k)"
      "rp_ret r = - 1" "rp_errno r \<noteq> EAGAIN" "rp_errno r \<noteq> EWOULDBLOCK" "res = Inr (- 1)"
      "c' = c\<lparr>conn_state := CLOSED\<rparr>"
      "w' = w\<lparr>kst := k, errno := rp_errno r, calls := calls w @ [Sys_send (conn_fd c) (unsent c)],
       logs := logs w @ [(ERROR, ''Connection send error: '' @ conn_name c @ '', errno='' @
         to_string (rp_errno r) @ '' ('' @ os_strerror os (rp_errno r) @ '')'')]\<rparr>"
proof (cases "conn_state c = CLOSED")
  case True
  then show ?thesis by (rule closed) (use assms(3) Send_closed [OF True, of os w] in simp_all)
next
  case live: False
  show ?thesis
  proof (cases "write_idx c = 0")
    case True
    have "unsent c = []" using True by (simp add: unsent_def)
    from live this show ?thesis
      by (rule nothing) (use assms(3) Send_nothing [OF live True, of os w] in simp_all)
  next
    case False
    then have can: "can_send c" using live assms(2) by (simp add: can_send_def)
    obtain r k where call: "os_call os (kst w) (Sys_send (conn_fd c) (unsent c)) = (r, k)" by force
    obtain t k' where clock: "os_call os k Sys_clock = (t, k')" by force
    note ok = send_okD [OF assms(1) call]
    consider "0 < rp_ret r" | "rp_ret r = 0"
      | "rp_ret r = - 1" "rp_errno r = EAGAIN \<or> rp_errno r = EWOULDBLOCK"
      | "rp_ret r = - 1" "rp_errno r \<noteq> EAGAIN" "rp_errno r \<noteq> EWOULDBLOCK"
      using ok(1) by linarith
    then show ?thesis
    proof cases
      case 1
      have "nat (rp_ret r) \<le> length (unsent c)" using ok(2) by simp
      then show ?thesis
        using data [OF can call 1 _ clock] Send_data [OF assms(1) can call 1 clock] assms(3) by simp
    next
      case 2
      then show ?thesis using zero [OF can call] Send_zero [OF can call] assms(3) by simp
    next
      case 3
      then show ?thesis using again [OF can call] Send_again [OF can call] assms(3) by simp
    next
      case 4
      then show ?thesis using error [OF can call] Send_error [OF can call] assms(3) by simp
    qed
  qed
qed

text \<open>Fields that an operation leaves alone.\<close>

lemma conn_fields [simp]:
  "conn_inv (c\<lparr>last_heartbeat := t\<rparr>) = conn_inv c" "conn_inv (c\<lparr>conn_state := st\<rparr>) = conn_inv c"
  "conn_inv (c\<lparr>conn_fd := fd\<rparr>) = conn_inv c"
  "unread (c\<lparr>last_heartbeat := t\<rparr>) = unread c" "unread (c\<lparr>conn_state := st\<rparr>) = unread c"
  "unread (c\<lparr>conn_fd := fd\<rparr>) = unread c"
  "unsent (c\<lparr>last_heartbeat := t\<rparr>) = unsent c" "unsent (c\<lparr>conn_state := st\<rparr>) = unsent c"
  "unsent (c\<lparr>conn_fd := fd\<rparr>) = unsent c"
  by (simp_all add: conn_inv_def unread_def unsent_def)

lemma buffer_fields [simp]:
  "conn_fd (after_received bs n c) = conn_fd c" "conn_state (after_received bs n c) = conn_state c"
  "unsent (after_received bs n c) = unsent c" "conn_ip (after_received bs n c) = conn_ip c"
  "conn_port (after_received bs n c) = conn_port c"
  "conn_fd (after_sent n c) = conn_fd c" "conn_state (after_sent n c) = conn_state c"
  "unread (after_sent n c) = unread c" "conn_ip (after_sent n c) = conn_ip c"
  "conn_port (after_sent n c) = conn_port c"
  "conn_fd (append_bytes bs c) = conn_fd c" "conn_state (append_bytes bs c) = conn_state c"
  "unread (append_bytes bs c) = unread c" "conn_ip (append_bytes bs c) = conn_ip c"
  "conn_port (append_bytes bs c) = conn_port c"
  "conn_fd (read_grown c) = conn_fd c" "conn_state (read_grown c) = conn_state c"
  "conn_ip (read_grown c) = conn_ip c" "conn_port (read_grown c) = conn_port c"
  by (simp_all add: after_received_def after_sent_def append_bytes_def after_copy_def read_grown_def
      unsent_def unread_def)

lemma consume_fields [simp]:
  "conn_fd (after_consumed n c) = conn_fd c"
  "conn_state (after_consumed n c) = conn_state c"
  "unsent (after_consumed n c) = unsent c"
  "conn_ip (after_consumed n c) = conn_ip c"
  "conn_port (after_consumed n c) = conn_port c"
  by (simp_all add: after_consumed_def unsent_def)

text \<open>
  Each operation keeps the invariant and the address, and changes the descriptor only by
  closing it: \<open>fd_ledger\<close>, the number of calls of \<open>close(fd)\<close> plus one while the connection
  still has the descriptor, is constant.
\<close>

definition fd_ledger :: "int \<Rightarrow> Connection \<times> ('k, 'z) sysw_scheme \<Rightarrow> nat" where
  "fd_ledger fd cw = closes fd (snd cw) + (if conn_fd (fst cw) = fd then 1 else 0)"

definition conn_keeps :: "Connection \<times> ('k, 'z) sysw_scheme \<Rightarrow> Connection \<times> ('k, 'z) sysw_scheme \<Rightarrow> bool" where
  "conn_keeps cw cw' \<longleftrightarrow> (conn_inv (fst cw) \<longrightarrow> conn_inv (fst cw')) \<and>
     conn_ip (fst cw') = conn_ip (fst cw) \<and> conn_port (fst cw') = conn_port (fst cw) \<and>
     (conn_fd (fst cw') = conn_fd (fst cw) \<or> conn_fd (fst cw') = - 1) \<and>
     (\<forall>fd. fd \<noteq> - 1 \<longrightarrow> fd_ledger fd cw' = fd_ledger fd cw) \<and> sys_only (snd cw) (snd cw')"

lemma conn_keeps_refl [simp, intro]: "conn_keeps cw cw"
  by (simp add: conn_keeps_def)

lemma conn_keeps_trans: "conn_keeps a b \<Longrightarrow> conn_keeps b c \<Longrightarrow> conn_keeps a c"
  unfolding conn_keeps_def using sys_only_trans by metis

lemma conn_keepsI:
  assumes "conn_inv c \<Longrightarrow> conn_inv c'" "conn_ip c' = conn_ip c" "conn_port c' = conn_port c"
    "conn_fd c' = conn_fd c" "\<And>fd. fd \<noteq> - 1 \<Longrightarrow> closes fd w' = closes fd w" "sys_only w w'"
  shows "conn_keeps (c, w) (c', w')"
  using assms by (simp add: conn_keeps_def fd_ledger_def)

lemma Recv_keeps:
  assumes "recv_ok os" "conn_inv c"
  shows "conn_keeps (c, w) (snd (Connection_Recv os (c, w)))" "no_ub (Connection_Recv os (c, w))"
proof -
  obtain res c' w' where R: "Connection_Recv os (c, w) = (res, (c', w'))" by (metis surj_pair)
  have "conn_keeps (c, w) (c', w') \<and> (\<forall>u. res \<noteq> Inl (Undefined_behaviour u))"
    using assms(1,2) R
  proof (cases rule: Recv_cases)
    case (data r k t k')
    have "read_room (read_grown c) (length (rp_bytes r))"
      using can_recvD(5) [OF data(1)] recv_okD(2,3) [OF assms(1) data(2)] data(3) by simp
    then have "conn_inv (after_received (rp_bytes r) (length (rp_bytes r)) (read_grown c))"
      using after_received_spec(1) can_recvD(2) [OF data(1)] by blast
    with data show ?thesis by (auto intro!: conn_keepsI simp: closes_def)
  qed (auto intro!: conn_keepsI simp: closes_def can_recvD resize_error_def)
  then show "conn_keeps (c, w) (snd (Connection_Recv os (c, w)))" "no_ub (Connection_Recv os (c, w))"
    using R by (simp_all add: no_ub_def)
qed

lemma Send_keeps:
  assumes "send_ok os" "conn_inv c"
  shows "conn_keeps (c, w) (snd (Connection_Send os (c, w)))" "no_ub (Connection_Send os (c, w))"
proof -
  obtain res c' w' where R: "Connection_Send os (c, w) = (res, (c', w'))" by (metis surj_pair)
  have "conn_keeps (c, w) (c', w') \<and> (\<forall>u. res \<noteq> Inl (Undefined_behaviour u))"
    using assms(1,2) R
  proof (cases rule: Send_cases)
    case (data r k t k')
    with assms(2) show ?thesis by (auto intro!: conn_keepsI simp: closes_def after_sent_spec)
  qed (use assms(2) in \<open>auto intro!: conn_keepsI simp: closes_def\<close>)
  then show "conn_keeps (c, w) (snd (Connection_Send os (c, w)))" "no_ub (Connection_Send os (c, w))"
    using R by (simp_all add: no_ub_def)
qed

lemma AppendWriteBuffer_keeps:
  assumes "conn_inv c" "length bs < 2 ^ 63"
  shows "conn_keeps (c, w) (snd (Connection_AppendWriteBuffer os bs (c, w)))"
    "no_ub (Connection_AppendWriteBuffer os bs (c, w))"
  using assms append_bytes_spec(1) [OF assms]
  by (auto simp: AppendWriteBuffer_eval not_le closes_def no_ub_def resize_error_def intro!: conn_keepsI)

lemma ConsumeReadBuffer_keeps:
  assumes "conn_inv c"
  shows "conn_keeps (c, w) (snd (Connection_ConsumeReadBuffer len (c, w)))"
    "no_ub (Connection_ConsumeReadBuffer len (c, w))"
  using assms by (auto simp: ConsumeReadBuffer_eval after_consumed_spec no_ub_def intro!: conn_keepsI)

lemma Close_keeps: "conn_keeps (c, w) (snd (Connection_Close os (c, w)))"
  by (auto simp: Close_eval conn_keeps_def fd_ledger_def closes_def Let_def split: prod.splits)

lemma conn_step_keeps:
  assumes "recv_ok os" "send_ok os" "conn_step os cw cw'" "conn_inv (fst cw)"
  shows "conn_keeps cw cw'"
  using assms(3)
proof (cases rule: conn_step.cases)
  case step_recv
  then show ?thesis using assms(1,4) Recv_keeps(1) by (metis prod.collapse)
next
  case step_send
  then show ?thesis using assms(2,4) Send_keeps(1) by (metis prod.collapse)
next
  case (step_append bytes)
  then show ?thesis using assms(4) AppendWriteBuffer_keeps(1) by (metis prod.collapse)
next
  case (step_consume len)
  then show ?thesis using assms(4) ConsumeReadBuffer_keeps(1) by (metis prod.collapse)
next
  case (step_state st)
  then show ?thesis
    by (cases cw) (auto simp: Connection_SetState_def prog_simps closes_def intro!: conn_keepsI)
next
  case step_heartbeat
  then show ?thesis
    by (cases cw) (auto simp: Connection_UpdateHeartbeat_def prog_simps closes_def intro!: conn_keepsI)
next
  case step_close
  then show ?thesis using Close_keeps by (metis prod.collapse)
qed

lemma conn_steps_keep:
  assumes "recv_ok os" "send_ok os" "(conn_step os)\<^sup>*\<^sup>* cw cw'" "conn_inv (fst cw)"
  shows "conn_keeps cw cw'"
  using assms(3)
proof induction
  case (step b c)
  have "conn_inv (fst b)" using step(3) assms(4) by (simp add: conn_keeps_def)
  then show ?case
    using conn_step_keeps [OF assms(1,2) step(2)] conn_keeps_trans step(3) by blast
qed simp

lemma Connection_new_eval:
  "Connection_new os fd ip port w = (Inr c, w') \<Longrightarrow> conn_inv c \<and> unread c = [] \<and> unsent c = [] \<and>
     conn_fd c = fd \<and> conn_ip c = ip \<and> conn_port c = port \<and> conn_state c = CONNECTING \<and> calls w' = calls w"
  by (auto simp: Connection_new_def prog_simps Let_def conn_inv_def unread_def unsent_def)

text \<open>The timeout test on the clock.\<close>

lemma IsTimeout_eval:
  assumes "0 \<le> timeout_ms"
  shows "Connection_IsTimeout os c timeout_ms w =
    (Inr ((timeout_ms + 1) * 1000000 \<le> clock os (kst w) - last_heartbeat c),
     w\<lparr>kst := snd (os_call os (kst w) Sys_clock)\<rparr>)"
proof -
  let ?d = "clock os (kst w) - last_heartbeat c"
  have "timeout_ms < duration_ms ?d \<longleftrightarrow> (timeout_ms + 1) * 1000000 \<le> ?d"
  proof (cases "0 \<le> ?d")
    case True
    then have "duration_ms ?d = ?d div 1000000"
      by (cases "?d = 0") (simp_all add: duration_ms_def)
    then show ?thesis
      using mult_div_mod_eq [of 1000000 ?d] pos_mod_sign [of 1000000 ?d] pos_mod_bound [of 1000000 ?d] by auto
  next
    case False
    then have "duration_ms ?d \<le> 0" by (simp add: duration_ms_def pos_imp_zdiv_nonneg_iff)
    moreover have "0 \<le> (timeout_ms + 1) * 1000000" using assms by simp
    ultimately have "\<not> timeout_ms < duration_ms ?d" "\<not> (timeout_ms + 1) * 1000000 \<le> ?d"
      using False assms by linarith+
    then show ?thesis by blast
  qed
  then show ?thesis by (simp add: Connection_IsTimeout_def prog_simps clock_def)
qed

section \<open>Traffic on the write side\<close>

text \<open>
  A sequence of \<open>AppendWriteBuffer\<close> and \<open>Send\<close> calls, as the event loop makes them; the
  result has the bytes that were accepted and the state.
\<close>

datatype write_op = Op_append "byte list" | Op_send

fun write_run :: "'k os \<Rightarrow> write_op list \<Rightarrow> Connection \<times> ('k, 'z) sysw_scheme \<Rightarrow>
    byte list \<times> Connection \<times> ('k, 'z) sysw_scheme" where
  "write_run os [] cw = ([], cw)"
| "write_run os (Op_append bs # ops) cw =
     (case Connection_AppendWriteBuffer os bs cw of (r, cw') \<Rightarrow>
        case write_run os ops cw' of (acc, cw'') \<Rightarrow>
          ((case r of Inl e \<Rightarrow> acc | Inr u \<Rightarrow> bs @ acc), cw''))"
| "write_run os (Op_send # ops) cw = write_run os ops (snd (Connection_Send os cw))"

text \<open>What a recording kernel has taken for the connection, and what is still to come.\<close>

definition stream :: "Connection \<times> ('k \<times> (int \<Rightarrow> byte list), 'z) sysw_scheme \<Rightarrow> byte list" where
  "stream cw = snd (kst (snd cw)) (conn_fd (fst cw)) @ unsent (fst cw)"

definition others_same :: "Connection \<times> ('k \<times> (int \<Rightarrow> byte list), 'z) sysw_scheme \<Rightarrow>
    Connection \<times> ('k \<times> (int \<Rightarrow> byte list), 'z) sysw_scheme \<Rightarrow> bool" where
  "others_same cw cw' \<longleftrightarrow> conn_fd (fst cw') = conn_fd (fst cw) \<and>
     (\<forall>fd. fd \<noteq> conn_fd (fst cw) \<longrightarrow> snd (kst (snd cw')) fd = snd (kst (snd cw)) fd)"

lemma Append_stream:
  assumes "conn_inv c" "length bs < 2 ^ 63"
    "Connection_AppendWriteBuffer os bs (c, w) = (r, (c', w'))"
  shows "conn_inv c'" "stream (c', w') = stream (c, w) @ (case r of Inl e \<Rightarrow> [] | Inr u \<Rightarrow> bs)"
    "others_same (c, w) (c', w')"
  using assms append_bytes_spec [OF assms(1,2)]
  by (auto simp: AppendWriteBuffer_eval not_le stream_def others_same_def split: if_splits)

lemma Send_stream:
  assumes "send_ok os" "conn_inv c" "Connection_Send (recording os) (c, w) = (r, (c', w'))"
  shows "conn_inv c' \<and> stream (c', w') = stream (c, w) \<and> others_same (c, w) (c', w')"
  using recording_send_ok [OF assms(1)] assms(2,3)
proof (cases rule: Send_cases)
  case (data r k t k')
  have k: "snd k' = (snd (kst w))(conn_fd c := snd (kst w) (conn_fd c) @ take (nat (rp_ret r)) (unsent c))"
    using data(2,5) by (auto simp: recording_call)
  show ?thesis
    using data k after_sent_spec [OF assms(2) data(4)] by (simp add: stream_def others_same_def)
qed (use assms(2) in \<open>auto simp: recording_call stream_def others_same_def\<close>)

lemma write_run_stream:
  assumes "send_ok os"
  shows "conn_inv c \<Longrightarrow> (\<forall>bs. Op_append bs \<in> set ops \<longrightarrow> length bs < 2 ^ 63) \<Longrightarrow>
    write_run (recording os) ops (c, w) = (acc, (c', w')) \<Longrightarrow>
    stream (c', w') = stream (c, w) @ acc \<and> conn_inv c' \<and> others_same (c, w) (c', w')"
proof (induction ops arbitrary: c w acc)
  case Nil
  then show ?case by (simp add: others_same_def)
next
  case (Cons x ops)
  show ?case
  proof (cases x)
    case (Op_append bs)
    obtain r c1 w1 where R: "Connection_AppendWriteBuffer (recording os) bs (c, w) = (r, (c1, w1))"
      by (metis surj_pair)
    obtain acc1 where run: "write_run (recording os) ops (c1, w1) = (acc1, (c', w'))"
      and acc: "acc = (case r of Inl e \<Rightarrow> acc1 | Inr u \<Rightarrow> bs @ acc1)"
      using Cons.prems(3) Op_append R by (auto split: prod.splits)
    have bs: "length bs < 2 ^ 63" using Cons.prems(2) Op_append by simp
    note ap = Append_stream [OF Cons.prems(1) bs R]
    have "stream (c', w') = stream (c1, w1) @ acc1 \<and> conn_inv c' \<and> others_same (c1, w1) (c', w')"
      using Cons.IH [OF ap(1) _ run] Cons.prems(2) by simp
    then show ?thesis using ap(2,3) acc by (cases r) (simp_all add: others_same_def)
  next
    case Op_send
    obtain r c1 w1 where R: "Connection_Send (recording os) (c, w) = (r, (c1, w1))" by (metis surj_pair)
    note sd = Send_stream [OF assms Cons.prems(1) R]
    have "stream (c', w') = stream (c1, w1) @ acc \<and> conn_inv c' \<and> others_same (c1, w1) (c', w')"
      using Cons.IH [of c1 w1 acc] sd Cons.prems(2,3) Op_send R by simp
    then show ?thesis using sd by (simp add: others_same_def)
  qed
qed

text \<open>\<open>Recv\<close> and \<open>Send\<close> on every branch.\<close>

lemma Recv_summary:
  assumes "recv_ok os" "conn_inv c" "conn_state c \<noteq> CLOSED" "Connection_Recv os (c, w) = (res, (c', w'))"
  shows "case res of
      Inl e \<Rightarrow> c' = c \<and> w' = w \<and>
        (if 2 ^ 63 \<le> length (read_buffer (read_grown c)) then e = Length_error
         else e = Bad_alloc \<and> length (read_buffer c) - read_idx c < 1024 \<and>
              \<not> os_grant os (kst w) (length (read_buffer (read_grown c))))
    | Inr n \<Rightarrow> \<exists>m r. 1024 \<le> m \<and> r = fst (os_call os (kst w) (Sys_recv (conn_fd c) m)) \<and> n = rp_ret r \<and>
        calls w' = calls w @ [Sys_recv (conn_fd c) m] \<and> conn_inv c' \<and> unsent c' = unsent c \<and>
        unread c' = unread c @ (if 0 < n then rp_bytes r else []) \<and>
        conn_state c' = (if 0 < n \<or> n < 0 \<and> rp_errno r = EAGAIN then conn_state c else CLOSED)"
  using assms(1,2,4)
proof (cases rule: Recv_cases)
  case (data r k t k')
  have "read_room (read_grown c) (length (rp_bytes r))"
    using can_recvD(5) [OF data(1)] recv_okD(2,3) [OF assms(1) data(2)] data(3) by simp
  note spec = after_received_spec [OF can_recvD(2) [OF data(1)] this]
  then show ?thesis
    using data can_recvD [OF data(1)] read_grown_spec [OF assms(2)]
    by (auto intro!: exI [of _ "recv_size c"])
next
  case (eof r k)
  then show ?thesis
    using can_recvD [OF eof(1)] read_grown_spec [OF assms(2)] by (auto intro!: exI [of _ "recv_size c"])
next
  case (again r k)
  then show ?thesis
    using can_recvD [OF again(1)] read_grown_spec [OF assms(2)]
    by (auto intro!: exI [of _ "recv_size c"] simp: EAGAIN_def EWOULDBLOCK_def)
next
  case (error r k)
  then show ?thesis
    using can_recvD [OF error(1)] read_grown_spec [OF assms(2)] by (auto intro!: exI [of _ "recv_size c"])
next
  case limit
  have "length (read_buffer c) - read_idx c < 1024" if "read_grown c \<noteq> c"
    using that conn_invD [OF assms(2)] by (auto simp: read_grown_def usz_simps split: if_splits)
  with limit assms(2) show ?thesis by (auto simp: can_recv_def read_granted_def resize_error_def)
qed (use assms(3) in auto)

lemma Send_summary:
  assumes "send_ok os" "conn_inv c" "conn_state c \<noteq> CLOSED" "Connection_Send os (c, w) = (res, (c', w'))"
  shows "if unsent c = [] then res = Inr 0 \<and> c' = c \<and> w' = w
    else \<exists>r. r = fst (os_call os (kst w) (Sys_send (conn_fd c) (unsent c))) \<and> res = Inr (rp_ret r) \<and>
        calls w' = calls w @ [Sys_send (conn_fd c) (unsent c)] \<and> conn_inv c' \<and> unread c' = unread c \<and>
        unsent c = take (nat (rp_ret r)) (unsent c) @ unsent c' \<and> nat (rp_ret r) + length (unsent c') = length (unsent c) \<and>
        conn_state c' = (if 0 < rp_ret r \<or> rp_ret r < 0 \<and> rp_errno r = EAGAIN then conn_state c else CLOSED)"
proof -
  have ne: "unsent c \<noteq> []" if "can_send c"
    using that conn_invD(7) [OF assms(2)] by (auto simp: can_send_def)
  from assms(1,2,4) show ?thesis
  proof (cases rule: Send_cases)
    case (data r k t k')
    then show ?thesis using after_sent_spec [OF assms(2) data(4)] ne by simp
  next
    case (again r k)
    then show ?thesis using ne assms(2) by (auto simp: EAGAIN_def EWOULDBLOCK_def)
  next
    case (zero r k)
    then show ?thesis using ne assms(2) by auto
  next
    case (error r k)
    then show ?thesis using ne assms(2) by auto
  qed (use assms(3) in auto)
qed

section \<open>Properties\<close>

text \<open>A connection on a scripted kernel, for the witnesses.\<close>

definition demo_conn :: Connection where
  "demo_conn = \<lparr>conn_fd = 7, conn_ip = ''10.0.0.1'', conn_port = 80, conn_state = CONNECTED,
     last_heartbeat = 0, read_buffer = [], write_buffer = [1, 2, 3, 0], read_idx = 0, write_idx = 3\<rparr>"

lemma demo_conn_inv: "conn_inv demo_conn" "unread demo_conn = []" "unsent demo_conn = [1, 2, 3]"
  "conn_fd demo_conn = 7" "conn_state demo_conn = CONNECTED" "conn_ip demo_conn = ''10.0.0.1''"
  by (simp_all add: demo_conn_def conn_inv_def unread_def unsent_def)

text \<open>
  C4: Whatever the kernel replies (short reads and writes, errors, end of file) and whether or
  not there is memory for a growing buffer, a connection that was created and then used by any
  sequence of its operations keeps its fill marks inside its buffers, its address, and has
  either its own descriptor or none. In every state it reaches, no operation reads or writes
  outside the buffers: \<open>recv\<close>, \<open>send\<close>, \<open>memcpy\<close> and \<open>memmove\<close> stay within the vectors. The
  descriptor is closed exactly once if the connection gave it up, and not at all otherwise.
\<close>

theorem conn_reachable_inv:
  assumes "recv_ok os" "send_ok os" "Connection_new os fd ip port w = (Inr c, w1)"
    "(conn_step os)\<^sup>*\<^sup>* (c, w1) (c', w')" "fd \<noteq> - 1"
  shows "conn_inv c' \<and> conn_ip c' = ip \<and> conn_port c' = port \<and>
    (if conn_fd c' = - 1 then closes fd w' = closes fd w + 1
     else conn_fd c' = fd \<and> closes fd w' = closes fd w) \<and>
    no_ub (Connection_Recv os (c', w')) \<and> no_ub (Connection_Send os (c', w')) \<and>
    (\<forall>bytes. length bytes < 2 ^ 63 \<longrightarrow> no_ub (Connection_AppendWriteBuffer os bytes (c', w'))) \<and>
    (\<forall>len. no_ub (Connection_ConsumeReadBuffer len (c', w')))"
proof -
  note new = Connection_new_eval [OF assms(3)]
  have keeps: "conn_keeps (c, w1) (c', w')"
    using conn_steps_keep [OF assms(1,2,4)] new by simp
  then have inv: "conn_inv c'" using new by (simp add: conn_keeps_def)
  have "conn_inv c' \<and> conn_ip c' = ip \<and> conn_port c' = port \<and>
    (if conn_fd c' = - 1 then closes fd w' = closes fd w + 1
     else conn_fd c' = fd \<and> closes fd w' = closes fd w)"
    using keeps new assms(5) by (auto simp: conn_keeps_def fd_ledger_def closes_def)
  then show ?thesis
    using Recv_keeps(2) [OF assms(1) inv] Send_keeps(2) [OF assms(2) inv]
      AppendWriteBuffer_keeps(2) [OF inv] ConsumeReadBuffer_keeps(2) [OF inv] by blast
qed

lemma conn_reachable_inv_witness:
  "\<exists>c w1. Connection_new script_os 7 ''10.0.0.1'' 80 (script_world []) = (Inr c, w1) \<and>
     (conn_step script_os)\<^sup>*\<^sup>* (c, w1) (snd (Connection_Close script_os (c, w1))) \<and>
     conn_inv (fst (snd (Connection_Close script_os (c, w1)))) \<and>
     no_ub (Connection_Recv script_os (snd (Connection_Close script_os (c, w1))))"
proof -
  obtain c w1 where new: "Connection_new script_os 7 ''10.0.0.1'' 80 (script_world []) = (Inr c, w1)"
    by (simp add: Connection_new_def prog_simps Let_def)
  have steps: "(conn_step script_os)\<^sup>*\<^sup>* (c, w1) (snd (Connection_Close script_os (c, w1)))"
    by (simp add: conn_step.step_close r_into_rtranclp)
  obtain c' w' where "snd (Connection_Close script_os (c, w1)) = (c', w')" by force
  then have "conn_inv (fst (snd (Connection_Close script_os (c, w1))))"
    "no_ub (Connection_Recv script_os (snd (Connection_Close script_os (c, w1))))"
    using conn_reachable_inv [OF script_call_ok(1,2) new, of c' w'] steps by simp_all
  with new steps show ?thesis by blast
qed

text \<open>
  C8: \<open>Recv\<close> on every branch. It asks the kernel for at least 1024 bytes, so that an answer of
  zero bytes always means the end of the stream; the bytes that arrive are added at the end
  of the read buffer, in order; every other answer leaves the unread bytes alone; the
  connection becomes \<open>CLOSED\<close> at the end of the stream and on errors other than
  \<open>EAGAIN\<close>. The only exceptions are those of growing the buffer, which happens when it has less
  than 1024 bytes of room: at the limit of \<open>std::vector\<close>, or because there is no memory; then
  nothing has changed and no call was made.
\<close>

theorem Recv_correct:
  assumes "recv_ok os" "conn_inv c" "conn_state c \<noteq> CLOSED" "Connection_Recv os (c, w) = (res, (c', w'))"
  shows "case res of
      Inl e \<Rightarrow> c' = c \<and> w' = w \<and>
        (if 2 ^ 63 \<le> length (read_buffer (read_grown c)) then e = Length_error
         else e = Bad_alloc \<and> length (read_buffer c) - read_idx c < 1024 \<and>
              \<not> os_grant os (kst w) (length (read_buffer (read_grown c))))
    | Inr n \<Rightarrow> \<exists>m r. 1024 \<le> m \<and> r = fst (os_call os (kst w) (Sys_recv (conn_fd c) m)) \<and> n = rp_ret r \<and>
        calls w' = calls w @ [Sys_recv (conn_fd c) m] \<and> conn_inv c' \<and> unsent c' = unsent c \<and>
        unread c' = unread c @ (if 0 < n then rp_bytes r else []) \<and>
        conn_state c' = (if 0 < n \<or> n < 0 \<and> rp_errno r = EAGAIN then conn_state c else CLOSED)"
  by (rule Recv_summary [OF assms])

lemma Recv_correct_witness:
  "\<exists>c' w'. Connection_Recv script_os (demo_conn, script_world [reply_of 2 0 [5, 6]]) = (Inr 2, (c', w')) \<and>
     unread c' = [5, 6] \<and> unsent c' = [1, 2, 3] \<and> conn_state c' = CONNECTED"
proof -
  obtain res c' w' where R: "Connection_Recv script_os (demo_conn, script_world [reply_of 2 0 [5, 6]]) = (res, (c', w'))"
    by (metis surj_pair)
  have "conn_state demo_conn \<noteq> CLOSED" by (simp add: demo_conn_inv)
  note * = Recv_correct [OF script_call_ok(1) demo_conn_inv(1) this R]
  have "length (read_buffer (read_grown demo_conn)) = 4096"
    by (simp add: read_grown_def demo_conn_def usz_add_def usz_sub_def usz_mul_def buf_simps)
  with * R show ?thesis
    by (auto simp: demo_conn_inv script_world_def reply_of_def split: sum.splits)
qed

text \<open>
  C9: \<open>Send\<close> on every branch. It never throws; it offers all unsent bytes to the kernel (or
  makes no call when there are none); what the kernel takes is a prefix of them, and the
  rest stays queued in order; the connection becomes \<open>CLOSED\<close> on an answer of zero and on
  errors other than \<open>EAGAIN\<close>.
\<close>

theorem Send_correct:
  assumes "send_ok os" "conn_inv c" "conn_state c \<noteq> CLOSED" "Connection_Send os (c, w) = (res, (c', w'))"
  shows "if unsent c = [] then res = Inr 0 \<and> c' = c \<and> w' = w
    else \<exists>r. r = fst (os_call os (kst w) (Sys_send (conn_fd c) (unsent c))) \<and> res = Inr (rp_ret r) \<and>
        calls w' = calls w @ [Sys_send (conn_fd c) (unsent c)] \<and> conn_inv c' \<and> unread c' = unread c \<and>
        unsent c = take (nat (rp_ret r)) (unsent c) @ unsent c' \<and> nat (rp_ret r) + length (unsent c') = length (unsent c) \<and>
        conn_state c' = (if 0 < rp_ret r \<or> rp_ret r < 0 \<and> rp_errno r = EAGAIN then conn_state c else CLOSED)"
  by (rule Send_summary [OF assms])

lemma Send_correct_witness:
  "unsent demo_conn \<noteq> [] \<and> fst (Connection_Send script_os (demo_conn, script_world [reply_of 2 0 []])) = Inr 2 \<and>
   [1, 2] @ unsent (fst (snd (Connection_Send script_os (demo_conn, script_world [reply_of 2 0 []])))) = [1, 2, 3]"
proof -
  obtain res c' w' where R: "Connection_Send script_os (demo_conn, script_world [reply_of 2 0 []]) = (res, (c', w'))"
    by (metis surj_pair)
  have "conn_state demo_conn \<noteq> CLOSED" by (simp add: demo_conn_inv)
  from Send_correct [OF script_call_ok(2) demo_conn_inv(1) this R] show ?thesis
    unfolding R by (simp add: demo_conn_inv script_world_def reply_of_def)
qed

text \<open>
  C5: The write side is a first-in first-out stream. For any sequence of appends and
  sends, any short writes and errors of the kernel and any failure to grow the buffer, the
  bytes that the kernel has taken from the calls of \<open>send\<close> on the connection's descriptor
  (recorded on the kernel's side, from what it was given), followed by the bytes still
  queued, are the same as at the start, followed by all bytes that were accepted: nothing is
  lost, repeated or reordered, and nothing is sent on another descriptor.
\<close>

theorem write_stream_fifo:
  assumes "send_ok os" "conn_inv c" "\<forall>bs. Op_append bs \<in> set ops \<longrightarrow> length bs < 2 ^ 63"
    "write_run (recording os) ops (c, w) = (accepted, (c', w'))"
  shows "snd (kst w') (conn_fd c) @ unsent c' = snd (kst w) (conn_fd c) @ unsent c @ accepted \<and>
         (\<forall>fd. fd \<noteq> conn_fd c \<longrightarrow> snd (kst w') fd = snd (kst w) fd)"
  using write_run_stream [OF assms] by (auto simp: stream_def others_same_def)

lemma write_stream_fifo_witness:
  "\<exists>c' w'. write_run (recording script_os) [Op_send, Op_append [4, 5], Op_send]
       (demo_conn, \<lparr>kst = ([reply_of 2 0 []], \<lambda>_. []), errno = 0, calls = [], logs = []\<rparr>) =
       ([4, 5], (c', w')) \<and> snd (kst w') 7 @ unsent c' = [1, 2, 3, 4, 5]"
proof -
  let ?ops = "[Op_send, Op_append [4, 5], Op_send]"
    and ?w = "\<lparr>kst = ([reply_of 2 0 []], \<lambda>_. []), errno = 0, calls = [], logs = []\<rparr>"
  obtain acc c' w' where R: "write_run (recording script_os) ?ops (demo_conn, ?w) = (acc, (c', w'))"
    by (metis surj_pair)
  have grant: "os_grant (recording script_os) k n" for k n
    by (simp add: recording_def split: prod.split)
  have "acc = [4, 5]"
    using R by (auto simp: Connection_Send_def Connection_AppendWriteBuffer_def demo_conn_def grant recording_call
        reply_of_def prog_simps Connection_UpdateHeartbeat_def after_sent_def after_copy_def
        shift_down_def blit_def vec_resize_def usz_add_def usz_sub_def usz_mul_def io_failed_def EAGAIN_def
        split: prod.splits)
  with R show ?thesis
    using write_stream_fifo [OF script_call_ok(2) demo_conn_inv(1) _ R] demo_conn_inv(3,4) by auto
qed

end
