(* ===== verification/Conn_Pool.thy ===== *)
theory Conn_Pool
  imports Conn_Connection Util_MemoryPool
begin

text \<open>
  \<open>conn::ConnectionPool\<close> (\<open>src/conn/connection_pool.h\<close>, \<open>src/conn/connection_pool.cpp\<close>): the
  table of all connections by file descriptor, with a limit and a heartbeat check. The
  state of the process, \<open>world\<close>, adds to the system state the heap of \<open>Connection\<close> objects
  (a \<open>shared_ptr\<close> is a reference into it) and the singleton pool.
\<close>

section \<open>The table\<close>

text \<open>
  The operations of \<open>std::unordered_map<int, T>\<close> that the pool uses, on a list of pairs
  with distinct keys.
\<close>

type_synonym 'v table = "(int \<times> 'v) list"

definition tbl_find :: "'v table \<Rightarrow> int \<Rightarrow> 'v option" where
  "tbl_find t k = map_of t k"

definition tbl_put :: "int \<Rightarrow> 'v \<Rightarrow> 'v table \<Rightarrow> 'v table" where
  "tbl_put k v t = (k, v) # filter (\<lambda>p. fst p \<noteq> k) t"

definition tbl_erase :: "int \<Rightarrow> 'v table \<Rightarrow> 'v table" where
  "tbl_erase k t = filter (\<lambda>p. fst p \<noteq> k) t"

definition tbl_ok :: "'v table \<Rightarrow> bool" where
  "tbl_ok t \<longleftrightarrow> distinct (map fst t)"

section \<open>State\<close>

record ConnectionPool =
  connections :: "nat table"
  cp_memory_pool :: "MemoryPool option"
  max_connections :: size_t
  heartbeat_timeout_ms :: int
  cp_running :: bool
  heartbeat_running :: bool
  heartbeat_thread :: bool

text \<open>The singleton is zero-initialised, as it has static storage.\<close>

definition ConnectionPool_default :: ConnectionPool where
  "ConnectionPool_default = \<lparr>connections = [], cp_memory_pool = None, max_connections = 0,
     heartbeat_timeout_ms = 0, cp_running = False, heartbeat_running = False, heartbeat_thread = False\<rparr>"

record 'k world = "'k sysw" +
  heap :: "nat \<Rightarrow> Connection option"
  next_ref :: nat
  cpool :: ConnectionPool

definition get_pool :: "('k, 'z) world_scheme \<Rightarrow> nat table" where
  "get_pool w = connections (cpool w)"

definition set_pool :: "(ConnectionPool \<Rightarrow> ConnectionPool) \<Rightarrow> (('k, 'z) world_scheme, unit) prog" where
  "set_pool f = modify (\<lambda>w. w\<lparr>cpool := f (cpool w)\<rparr>)"

text \<open>
  \<open>conn->m()\<close> through a reference, \<open>std::make_shared<Connection>(...)\<close>, and reading an
  object for its \<open>const\<close> methods.
\<close>

definition on_conn :: "nat \<Rightarrow> (Connection \<times> ('k, 'z) world_scheme, 'a) prog \<Rightarrow> (('k, 'z) world_scheme, 'a) prog" where
  "on_conn a m = (\<lambda>w. case heap w a of
       None \<Rightarrow> (Inl (Undefined_behaviour ''dangling reference''), w)
     | Some c \<Rightarrow> (case m (c, w) of (r, (c', w')) \<Rightarrow> (r, w'\<lparr>heap := (heap w')(a := Some c')\<rparr>)))"

definition deref :: "nat \<Rightarrow> (('k, 'z) world_scheme, Connection) prog" where
  "deref a = (\<lambda>w. case heap w a of
       None \<Rightarrow> (Inl (Undefined_behaviour ''dangling reference''), w)
     | Some c \<Rightarrow> (Inr c, w))"

definition make_conn :: "'k os \<Rightarrow> int \<Rightarrow> string \<Rightarrow> 16 word \<Rightarrow> (('k, 'z) world_scheme, nat) prog" where
  "make_conn os fd ip port = bnd (Connection_new os fd ip port) (\<lambda>c.
     bnd (gets next_ref) (\<lambda>a.
     andthen (modify (\<lambda>w. w\<lparr>heap := (heap w)(a := Some c), next_ref := Suc a\<rparr>)) (ret a)))"

section \<open>Operations\<close>

definition ConnectionPool_Init :: "'k os \<Rightarrow> size_t \<Rightarrow> int \<Rightarrow> (('k, 'z) world_scheme, unit) prog" where
  "ConnectionPool_Init os maxc timeout =
     andthen (set_pool (\<lambda>p. p\<lparr>max_connections := maxc, heartbeat_timeout_ms := timeout, cp_running := True\<rparr>))
    (case MemoryPool_new (os_new_array os) 4096 maxc of
       Inl e \<Rightarrow> throw e
     | Inr mp \<Rightarrow> andthen (set_pool (\<lambda>p. p\<lparr>cp_memory_pool := Some mp\<rparr>))
         (LOG INFO (''ConnectionPool initialized: max_connections='' @ to_string (int maxc) @
            '', heartbeat_timeout='' @ to_string timeout @ ''ms'')))"

definition ConnectionPool_AddConnection :: "nat \<Rightarrow> (('k, 'z) world_scheme, bool) prog" where
  "ConnectionPool_AddConnection conn = bnd (gets cpool) (\<lambda>p.
     if \<not> cp_running p
     then andthen (LOG WARN ''ConnectionPool is not running, cannot add connection'') (ret False)
     else if max_connections p \<le> length (connections p)
     then andthen (LOG ERROR (''ConnectionPool: max connections reached ('' @ to_string (int (max_connections p)) @ '')''))
            (ret False)
     else bnd (deref conn) (\<lambda>c.
       let fd = Connection_GetFd c
       in if tbl_find (connections p) fd \<noteq> None
          then andthen (LOG WARN (''ConnectionPool: connection with fd='' @ to_string fd @ '' already exists'')) (ret False)
          else andthen (set_pool (\<lambda>p. p\<lparr>connections := tbl_put fd conn (connections p)\<rparr>))
              (bnd (gets get_pool) (\<lambda>t.
               andthen (LOG DEBUG (''ConnectionPool: added connection '' @ Connection_GetIp c @ '':'' @
                   to_string (uint (Connection_GetPort c)) @ '', fd='' @ to_string fd @
                   '', total='' @ to_string (int (length t))))
                 (ret True)))))"

definition ConnectionPool_RemoveConnection :: "'k os \<Rightarrow> int \<Rightarrow> (('k, 'z) world_scheme, bool) prog" where
  "ConnectionPool_RemoveConnection os fd = bnd (gets get_pool) (\<lambda>t.
     case tbl_find t fd of
       None \<Rightarrow> andthen (LOG WARN (''ConnectionPool: connection with fd='' @ to_string fd @ '' not found'')) (ret False)
     | Some conn \<Rightarrow> bnd (deref conn) (\<lambda>c.
         andthen (on_conn conn (Connection_Close os))
        (andthen (set_pool (\<lambda>p. p\<lparr>connections := tbl_erase fd (connections p)\<rparr>))
        (bnd (gets get_pool) (\<lambda>t'.
         andthen (LOG DEBUG (''ConnectionPool: removed connection '' @ Connection_GetIp c @ '':'' @
             to_string (uint (Connection_GetPort c)) @ '', fd='' @ to_string fd @
             '', total='' @ to_string (int (length t'))))
           (ret True))))))"

definition ConnectionPool_GetConnection :: "int \<Rightarrow> (('k, 'z) world_scheme, nat option) prog" where
  "ConnectionPool_GetConnection fd = bnd (gets get_pool) (\<lambda>t. ret (tbl_find t fd))"

definition ConnectionPool_GetConnectionCount :: "(('k, 'z) world_scheme, size_t) prog" where
  "ConnectionPool_GetConnectionCount = gets (\<lambda>w. length (get_pool w))"

definition ConnectionPool_GetMaxConnections :: "(('k, 'z) world_scheme, size_t) prog" where
  "ConnectionPool_GetMaxConnections = gets (\<lambda>w. max_connections (cpool w))"

definition ConnectionPool_StartHeartbeatCheck :: "(('k, 'z) world_scheme, unit) prog" where
  "ConnectionPool_StartHeartbeatCheck = bnd (gets cpool) (\<lambda>p.
     if heartbeat_running p then LOG WARN ''ConnectionPool: heartbeat check already running''
     else andthen (set_pool (\<lambda>p. p\<lparr>heartbeat_running := True\<rparr>))
         (andthen (set_pool (\<lambda>p. p\<lparr>heartbeat_thread := True\<rparr>))
         (LOG INFO ''ConnectionPool: heartbeat check started'')))"

text \<open>\<open>join()\<close> returns when the thread has left its loop; it is not joinable afterwards.\<close>

definition ConnectionPool_StopHeartbeatCheck :: "(('k, 'z) world_scheme, unit) prog" where
  "ConnectionPool_StopHeartbeatCheck = bnd (gets cpool) (\<lambda>p.
     if \<not> heartbeat_running p then ret ()
     else andthen (set_pool (\<lambda>p. p\<lparr>heartbeat_running := False\<rparr>))
         (andthen (doif (heartbeat_thread p) (set_pool (\<lambda>p. p\<lparr>heartbeat_thread := False\<rparr>)))
         (LOG INFO ''ConnectionPool: heartbeat check stopped'')))"

text \<open>The loop of \<open>Shutdown\<close> over the table, in the order of iteration.\<close>

fun close_each :: "'k os \<Rightarrow> nat table \<Rightarrow> (('k, 'z) world_scheme, unit) prog" where
  "close_each os [] = ret ()"
| "close_each os (pair # t) = andthen (on_conn (snd pair) (Connection_Close os)) (close_each os t)"

definition ConnectionPool_Shutdown :: "'k os \<Rightarrow> (('k, 'z) world_scheme, unit) prog" where
  "ConnectionPool_Shutdown os = andthen ConnectionPool_StopHeartbeatCheck (bnd (gets cpool) (\<lambda>p.
     if \<not> cp_running p then ret ()
     else andthen (set_pool (\<lambda>p. p\<lparr>cp_running := False\<rparr>))
         (andthen (close_each os (os_iter os (connections p)))
         (andthen (set_pool (\<lambda>p. p\<lparr>connections := []\<rparr>))
         (LOG INFO (''ConnectionPool shutdown: closed '' @ to_string (int (length (connections p))) @ '' connections''))))))"

definition ConnectionPool_delete :: "'k os \<Rightarrow> (('k, 'z) world_scheme, unit) prog" where
  "ConnectionPool_delete os = ConnectionPool_Shutdown os"

text \<open>
  One round of \<open>HeartbeatCheckLoop\<close> after its wait: collect the descriptors of the
  connections that have timed out, then remove them one by one.
\<close>

fun collect_timeouts :: "'k os \<Rightarrow> int \<Rightarrow> nat table \<Rightarrow> (('k, 'z) world_scheme, int list) prog" where
  "collect_timeouts os timeout [] = ret []"
| "collect_timeouts os timeout (pair # t) = bnd (deref (snd pair)) (\<lambda>c.
     bnd (Connection_IsTimeout os c timeout) (\<lambda>late.
     bnd (collect_timeouts os timeout t) (\<lambda>fds. ret (if late then fst pair # fds else fds))))"

fun remove_each :: "'k os \<Rightarrow> int list \<Rightarrow> (('k, 'z) world_scheme, unit) prog" where
  "remove_each os [] = ret ()"
| "remove_each os (fd # fds) =
     andthen (LOG WARN (''ConnectionPool: connection fd='' @ to_string fd @ '' timed out, removing''))
    (bnd (ConnectionPool_RemoveConnection os fd) (\<lambda>_. remove_each os fds))"

definition heartbeat_round :: "'k os \<Rightarrow> (('k, 'z) world_scheme, unit) prog" where
  "heartbeat_round os = bnd (gets cpool) (\<lambda>p.
     bnd (collect_timeouts os (heartbeat_timeout_ms p) (os_iter os (connections p))) (\<lambda>timeout_fds.
     andthen (remove_each os timeout_fds)
       (doif (timeout_fds \<noteq> [])
         (LOG INFO (''ConnectionPool: removed '' @ to_string (int (length timeout_fds)) @ '' timeout connections'')))))"

text \<open>
  The thread function. Its argument is what the other threads do to the state during each
  wait of ten seconds; the list ends while the thread still waits, so that every finite
  run of the loop is covered.
\<close>

fun HeartbeatCheckLoop :: "'k os \<Rightarrow> (('k, 'z) world_scheme \<Rightarrow> ('k, 'z) world_scheme) list \<Rightarrow>
    (('k, 'z) world_scheme, unit) prog" where
  "HeartbeatCheckLoop os [] = ret ()"
| "HeartbeatCheckLoop os (others # waits) = bnd (gets cpool) (\<lambda>p.
     if \<not> heartbeat_running p then LOG DEBUG ''ConnectionPool: heartbeat check loop stopped''
     else andthen (modify others) (bnd (gets cpool) (\<lambda>p'.
       if \<not> heartbeat_running p' then LOG DEBUG ''ConnectionPool: heartbeat check loop stopped''
       else andthen (heartbeat_round os) (HeartbeatCheckLoop os waits))))"

definition heartbeat_thread_main :: "'k os \<Rightarrow> (('k, 'z) world_scheme \<Rightarrow> ('k, 'z) world_scheme) list \<Rightarrow>
    (('k, 'z) world_scheme, unit) prog" where
  "heartbeat_thread_main os waits =
     andthen (LOG DEBUG ''ConnectionPool: heartbeat check loop started'') (HeartbeatCheckLoop os waits)"

section \<open>The interface of the table\<close>

text \<open>
  What the pool relies on: the table is a finite map with a size. A sequence of insertions
  and erasures then acts like the same sequence of updates on a function.
\<close>

datatype 'v table_op = Put_op int 'v | Erase_op int

fun map_op :: "'v table_op \<Rightarrow> (int \<rightharpoonup> 'v) \<Rightarrow> (int \<rightharpoonup> 'v)" where
  "map_op (Put_op k v) m = m(k \<mapsto> v)"
| "map_op (Erase_op k) m = m(k := None)"

fun tbl_op :: "(int \<Rightarrow> 'v \<Rightarrow> 't \<Rightarrow> 't) \<Rightarrow> (int \<Rightarrow> 't \<Rightarrow> 't) \<Rightarrow> 'v table_op \<Rightarrow> 't \<Rightarrow> 't" where
  "tbl_op put erase (Put_op k v) t = put k v t"
| "tbl_op put erase (Erase_op k) t = erase k t"

locale fd_table =
  fixes ok :: "'t \<Rightarrow> bool"
    and find :: "'t \<Rightarrow> int \<Rightarrow> 'v option"
    and put :: "int \<Rightarrow> 'v \<Rightarrow> 't \<Rightarrow> 't"
    and erase :: "int \<Rightarrow> 't \<Rightarrow> 't"
    and tsize :: "'t \<Rightarrow> nat"
  assumes find_put: "ok t \<Longrightarrow> find (put k v t) = (find t)(k \<mapsto> v)"
    and ok_put: "ok t \<Longrightarrow> ok (put k v t)"
    and find_erase: "ok t \<Longrightarrow> find (erase k t) = (find t)(k := None)"
    and ok_erase: "ok t \<Longrightarrow> ok (erase k t)"
    and finite_dom: "ok t \<Longrightarrow> finite (dom (find t))"
    and size_dom: "ok t \<Longrightarrow> tsize t = card (dom (find t))"
begin

lemma size_put: "ok t \<Longrightarrow> find t k = None \<Longrightarrow> tsize (put k v t) = Suc (tsize t)"
  by (simp add: size_dom ok_put find_put finite_dom domIff)

lemma size_erase: "ok t \<Longrightarrow> find t k = Some v \<Longrightarrow> Suc (tsize (erase k t)) = tsize t"
  using card_Suc_Diff1 [of "dom (find t)" k] by (simp add: size_dom ok_erase find_erase finite_dom domIff)

lemma run_refines:
  "ok t \<Longrightarrow> ok (fold (tbl_op put erase) ops t) \<and>
     find (fold (tbl_op put erase) ops t) = fold map_op ops (find t)"
proof (induction ops arbitrary: t)
  case (Cons x ops)
  have "ok (tbl_op put erase x t)" "find (tbl_op put erase x t) = map_op x (find t)"
    using Cons.prems by (cases x; simp add: ok_put find_put ok_erase find_erase)+
  with Cons.IH [of "tbl_op put erase x t"] show ?case by simp
qed simp

end

lemma map_of_erase: "map_of (filter (\<lambda>p. fst p \<noteq> k) t) = (map_of t)(k := None)"
  by (induction t) (auto simp: fun_eq_iff)

lemma map_of_filter_key: "map_of (filter (\<lambda>p. P (fst p)) t) k = (if P k then map_of t k else None)"
  by (induction t) auto

lemma tbl_find_eq: "tbl_find t = map_of t"
  by (simp add: fun_eq_iff tbl_find_def)

lemma tbl_size_dom: "tbl_ok t \<Longrightarrow> length t = card (dom (map_of t))"
  by (metis tbl_ok_def dom_map_of_conv_image_fst distinct_card length_map set_map)

lemma tbl_erase_ok: "tbl_ok t \<Longrightarrow> tbl_ok (tbl_erase k t)"
  by (simp add: tbl_ok_def tbl_erase_def distinct_map_filter)

interpretation tb: fd_table tbl_ok tbl_find tbl_put tbl_erase length
proof unfold_locales
  fix t :: "'v table" and k :: int and v :: 'v
  assume ok: "tbl_ok t"
  show "tbl_find (tbl_put k v t) = (tbl_find t)(k \<mapsto> v)"
    by (auto simp: tbl_find_def tbl_put_def map_of_erase fun_eq_iff)
  show "tbl_ok (tbl_put k v t)"
    using tbl_erase_ok [OF ok, of k] by (auto simp: tbl_ok_def tbl_put_def tbl_erase_def)
  show "tbl_find (tbl_erase k t) = (tbl_find t)(k := None)"
    by (auto simp: tbl_find_def tbl_erase_def map_of_erase fun_eq_iff)
  show "tbl_ok (tbl_erase k t)" by (rule tbl_erase_ok [OF ok])
  show "finite (dom (tbl_find t))" by (simp add: tbl_find_eq finite_dom_map_of)
  show "length t = card (dom (tbl_find t))"
    using tbl_size_dom [OF ok] by (simp add: tbl_find_eq)
qed

section \<open>Evaluation of the operations\<close>

lemma set_pool_eval [prog_simps]: "set_pool f w = (Inr (), w\<lparr>cpool := f (cpool w)\<rparr>)"
  by (simp add: set_pool_def prog_simps)

lemma deref_eval [prog_simps]: "heap w a = Some c \<Longrightarrow> deref a w = (Inr c, w)"
  by (simp add: deref_def)

lemma on_conn_eval [prog_simps]:
  "heap w a = Some c \<Longrightarrow>
     on_conn a m w = (case m (c, w) of (r, (c', w')) \<Rightarrow> (r, w'\<lparr>heap := (heap w')(a := Some c')\<rparr>))"
  by (simp add: on_conn_def)

lemma sys_only_world [simp]:
  assumes "sys_only w w'"
  shows "heap w' = heap w" "next_ref w' = next_ref w" "cpool w' = cpool w" "get_pool w' = get_pool w"
  using assms by (auto simp: sys_only_def get_pool_def)

text \<open>
  The invariant of the process state: keys and references of the table are distinct, it is
  within its limit, its entries are live objects whose descriptor is the key (or given up),
  and every object keeps the invariant of a connection.
\<close>

definition cp_inv :: "('k, 'z) world_scheme \<Rightarrow> bool" where
  "cp_inv w \<longleftrightarrow> tbl_ok (get_pool w) \<and> distinct (map snd (get_pool w)) \<and>
     length (get_pool w) \<le> max_connections (cpool w) \<and>
     (\<forall>(fd, a) \<in> set (get_pool w). \<exists>c. heap w a = Some c \<and> (conn_fd c = fd \<or> conn_fd c = - 1)) \<and>
     (\<forall>a c. heap w a = Some c \<longrightarrow> conn_inv c \<and> a < next_ref w)"

lemma cp_inv_entry:
  assumes "cp_inv w" "tbl_find (get_pool w) fd = Some a"
  shows "(fd, a) \<in> set (get_pool w)" "\<exists>c. heap w a = Some c \<and> (conn_fd c = fd \<or> conn_fd c = - 1) \<and> conn_inv c"
proof -
  show "(fd, a) \<in> set (get_pool w)" using assms(2) by (simp add: tbl_find_def map_of_SomeD)
  with assms(1) show "\<exists>c. heap w a = Some c \<and> (conn_fd c = fd \<or> conn_fd c = - 1) \<and> conn_inv c"
    unfolding cp_inv_def by fastforce
qed

text \<open>An operation of one connection keeps the invariant.\<close>

lemma on_conn_keeps:
  assumes "cp_inv w" "heap w a = Some c" "conn_keeps (c, w) (snd (m (c, w)))"
  shows "cp_inv (snd (on_conn a m w))" "fst (on_conn a m w) = fst (m (c, w))"
    "cpool (snd (on_conn a m w)) = cpool w" "next_ref (snd (on_conn a m w)) = next_ref w"
    "heap (snd (on_conn a m w)) = (heap w)(a := Some (fst (snd (m (c, w)))))"
    "calls (snd (on_conn a m w)) = calls (snd (snd (m (c, w))))"
    "errno (snd (on_conn a m w)) = errno (snd (snd (m (c, w))))"
    "kst (snd (on_conn a m w)) = kst (snd (snd (m (c, w))))"
proof -
  obtain r c' w' where m: "m (c, w) = (r, (c', w'))" by (metis surj_pair)
  have so: "sys_only w w'" using assms(3) m by (simp add: conn_keeps_def)
  show "fst (on_conn a m w) = fst (m (c, w))"
    "cpool (snd (on_conn a m w)) = cpool w" "next_ref (snd (on_conn a m w)) = next_ref w"
    "heap (snd (on_conn a m w)) = (heap w)(a := Some (fst (snd (m (c, w)))))"
    "calls (snd (on_conn a m w)) = calls (snd (snd (m (c, w))))"
    "errno (snd (on_conn a m w)) = errno (snd (snd (m (c, w))))"
    "kst (snd (on_conn a m w)) = kst (snd (snd (m (c, w))))"
    using assms(2) m so by (simp_all add: on_conn_eval)
  have ci: "conn_inv c" using assms(1,2) by (auto simp: cp_inv_def)
  have fd: "conn_fd c' = conn_fd c \<or> conn_fd c' = - 1" and ci': "conn_inv c'"
    using assms(3) m ci by (auto simp: conn_keeps_def)
  have pool: "get_pool (w'\<lparr>heap := (heap w')(a := Some c')\<rparr>) = get_pool w"
    using so by (simp add: get_pool_def)
  have "\<exists>x. ((heap w)(a := Some c')) b = Some x \<and> (conn_fd x = k \<or> conn_fd x = - 1)"
    if "(k, b) \<in> set (get_pool w)" for k b
    using that assms(1,2) fd by (cases "b = a") (fastforce simp: cp_inv_def)+
  then have entries: "\<forall>(k, b) \<in> set (get_pool w).
      \<exists>x. ((heap w)(a := Some c')) b = Some x \<and> (conn_fd x = k \<or> conn_fd x = - 1)"
    by blast
  have "\<forall>b x. ((heap w)(a := Some c')) b = Some x \<longrightarrow> conn_inv x \<and> b < next_ref w"
    using assms(1,2) ci' by (simp add: cp_inv_def)
  with entries have "cp_inv (w'\<lparr>heap := (heap w')(a := Some c')\<rparr>)"
    using assms(1) so unfolding cp_inv_def pool by (simp del: fun_upd_apply)
  then show "cp_inv (snd (on_conn a m w))" using assms(2) m by (simp add: on_conn_eval)
qed

lemma on_conn_step:
  assumes "cp_inv w" "heap w a = Some c" "m (c, w) = (r, (c', w1))" "conn_keeps (c, w) (c', w1)"
  obtains w' where "on_conn a m w = (r, w')" "cp_inv w'" "cpool w' = cpool w" "next_ref w' = next_ref w"
    "heap w' = (heap w)(a := Some c')" "calls w' = calls w1" "errno w' = errno w1" "kst w' = kst w1"
proof -
  have "conn_keeps (c, w) (snd (m (c, w)))" using assms(3,4) by simp
  note k = on_conn_keeps [where m = m, OF assms(1,2) this]
  have "on_conn a m w = (r, snd (on_conn a m w))" using k(2) assms(3) by (simp add: prod_eq_iff)
  then show ?thesis by (rule that) (use k assms(3) in simp_all)
qed

text \<open>
  What \<open>Close\<close> leaves of a connection, and which system call it makes.
\<close>

definition closed_conn :: "Connection \<Rightarrow> Connection" where
  "closed_conn c = (if conn_state c = CLOSED then c else c\<lparr>conn_state := CLOSED, conn_fd := - 1\<rparr>)"

definition close_calls :: "Connection \<Rightarrow> syscall list" where
  "close_calls c = (if conn_state c = CLOSED \<or> conn_fd c = - 1 then [] else [Sys_close (conn_fd c)])"

lemma Close_effect:
  "fst (Connection_Close os (c, w)) = Inr ()" "fst (snd (Connection_Close os (c, w))) = closed_conn c"
  "calls (snd (snd (Connection_Close os (c, w)))) = calls w @ close_calls c"
proof -
  have "conn_fd c = - 1 \<Longrightarrow> c\<lparr>conn_state := CLOSED, conn_fd := - 1\<rparr> = c\<lparr>conn_state := CLOSED\<rparr>"
    by (cases c) simp
  then show "fst (Connection_Close os (c, w)) = Inr ()" "fst (snd (Connection_Close os (c, w))) = closed_conn c"
    "calls (snd (snd (Connection_Close os (c, w)))) = calls w @ close_calls c"
    by (simp_all add: Close_eval closed_conn_def close_calls_def Let_def split: prod.splits)
qed

lemma closed_conn_state [simp]: "conn_state (closed_conn c) = CLOSED" "conn_fd (closed_conn c) = conn_fd c \<or> conn_fd (closed_conn c) = - 1"
  by (simp_all add: closed_conn_def)

lemma on_conn_Close:
  assumes "cp_inv w" "heap w a = Some c"
  obtains w' where "on_conn a (Connection_Close os) w = (Inr (), w')" "cp_inv w'" "cpool w' = cpool w"
    "next_ref w' = next_ref w" "heap w' = (heap w)(a := Some (closed_conn c))" "calls w' = calls w @ close_calls c"
proof
  note k = on_conn_keeps [where m = "Connection_Close os", OF assms Close_keeps]
  show "on_conn a (Connection_Close os) w = (Inr (), snd (on_conn a (Connection_Close os) w))"
    using k(2) Close_effect(1) by (metis prod.collapse)
qed (simp_all add: on_conn_keeps [where m = "Connection_Close os", OF assms Close_keeps] Close_effect)

lemma cp_inv_sys_only: "cp_inv w \<Longrightarrow> sys_only w w' \<Longrightarrow> cp_inv w'"
  by (simp add: cp_inv_def)

lemma cp_inv_filter:
  assumes "cp_inv w" "heap w' = heap w" "next_ref w' = next_ref w"
    "max_connections (cpool w') = max_connections (cpool w)" "get_pool w' = filter P (get_pool w)"
  shows "cp_inv w'"
  unfolding cp_inv_def
proof (intro conjI)
  have len: "length (filter P t) \<le> length t" for t :: "nat table" by simp
  show "tbl_ok (get_pool w')" "distinct (map snd (get_pool w'))"
    using assms(1) unfolding assms(5) cp_inv_def tbl_ok_def by (simp_all add: distinct_map_filter)
  show "length (get_pool w') \<le> max_connections (cpool w')"
    using assms(1) len [of "get_pool w"] unfolding assms(4,5) cp_inv_def by linarith
  show "\<forall>(fd, a) \<in> set (get_pool w'). \<exists>c. heap w' a = Some c \<and> (conn_fd c = fd \<or> conn_fd c = - 1)"
    using assms(1) unfolding assms(2,5) cp_inv_def by auto
  show "\<forall>a c. heap w' a = Some c \<longrightarrow> conn_inv c \<and> a < next_ref w'"
    using assms(1) unfolding assms(2,3) cp_inv_def by blast
qed

lemma cp_inv_logs [simp]: "cp_inv (w\<lparr>logs := l\<rparr>) = cp_inv w"
  by (simp add: cp_inv_def get_pool_def)

text \<open>\<open>AddConnection\<close> of an object that is not in the table yet.\<close>

definition can_add :: "('k, 'z) world_scheme \<Rightarrow> int \<Rightarrow> bool" where
  "can_add w fd \<longleftrightarrow> cp_running (cpool w) \<and> length (get_pool w) < max_connections (cpool w) \<and>
     tbl_find (get_pool w) fd = None"

lemma AddConnection_refused:
  assumes "heap w a = Some c" "\<not> can_add w (conn_fd c)"
  obtains w' where "ConnectionPool_AddConnection a w = (Inr False, w')" "sys_only w w'" "calls w' = calls w"
    "kst w' = kst w" "errno w' = errno w"
proof
  let ?w' = "snd (ConnectionPool_AddConnection a w)"
  show "ConnectionPool_AddConnection a w = (Inr False, ?w')" "sys_only w ?w'" "calls ?w' = calls w"
    "kst ?w' = kst w" "errno ?w' = errno w"
    using assms
    by (auto simp: ConnectionPool_AddConnection_def can_add_def get_pool_def prog_simps Connection_GetFd_def Let_def not_less)
qed

lemma AddConnection_added:
  assumes "cp_inv w" "heap w a = Some c" "a \<notin> snd ` set (get_pool w)" "can_add w (conn_fd c)"
  obtains w' where "ConnectionPool_AddConnection a w = (Inr True, w')" "cp_inv w'" "heap w' = heap w"
    "next_ref w' = next_ref w" "cpool w' = (cpool w)\<lparr>connections := tbl_put (conn_fd c) a (get_pool w)\<rparr>"
    "calls w' = calls w" "kst w' = kst w" "errno w' = errno w"
proof
  let ?w' = "snd (ConnectionPool_AddConnection a w)"
  show eval: "ConnectionPool_AddConnection a w = (Inr True, ?w')" "heap ?w' = heap w"
    "next_ref ?w' = next_ref w" "cpool ?w' = (cpool w)\<lparr>connections := tbl_put (conn_fd c) a (get_pool w)\<rparr>"
    "calls ?w' = calls w" "kst ?w' = kst w" "errno ?w' = errno w"
    using assms
    by (auto simp: ConnectionPool_AddConnection_def can_add_def get_pool_def prog_simps Connection_GetFd_def Let_def)
  have add: "tbl_find (get_pool w) (conn_fd c) = None" "length (get_pool w) < max_connections (cpool w)"
    "cp_running (cpool w)"
    using assms(4) by (simp_all add: can_add_def)
  have ok: "tbl_ok (get_pool w)" using assms(1) by (simp add: cp_inv_def)
  have "filter (\<lambda>p. fst p \<noteq> conn_fd c) (get_pool w) = get_pool w"
    using add(1) by (force simp: tbl_find_def filter_id_conv map_of_eq_None_iff)
  then have put: "tbl_put (conn_fd c) a (get_pool w) = (conn_fd c, a) # get_pool w" by (simp add: tbl_put_def)
  have "tbl_ok ((conn_fd c, a) # get_pool w)" using tb.ok_put [OF ok, of "conn_fd c" a] put by simp
  then show "cp_inv ?w'"
    using assms(1,2,3) add(2,3) by (auto simp: cp_inv_def get_pool_def eval(2-4) put [unfolded get_pool_def])
qed

lemma RemoveConnection_missing:
  assumes "tbl_find (get_pool w) fd = None"
  shows "ConnectionPool_RemoveConnection os fd w = (Inr False,
    w\<lparr>logs := logs w @ [(WARN, ''ConnectionPool: connection with fd='' @ to_string fd @ '' not found'')]\<rparr>)"
  using assms by (simp add: ConnectionPool_RemoveConnection_def prog_simps)

lemma RemoveConnection_found:
  assumes "cp_inv w" "tbl_find (get_pool w) fd = Some a" "heap w a = Some c"
  obtains w' where "ConnectionPool_RemoveConnection os fd w = (Inr True, w')" "cp_inv w'"
    "get_pool w' = tbl_erase fd (get_pool w)" "heap w' = (heap w)(a := Some (closed_conn c))"
    "calls w' = calls w @ close_calls c" "next_ref w' = next_ref w"
    "cpool w' = (cpool w)\<lparr>connections := tbl_erase fd (get_pool w)\<rparr>"
proof -
  obtain w1 where close: "on_conn a (Connection_Close os) w = (Inr (), w1)" and inv: "cp_inv w1"
    and w1: "cpool w1 = cpool w" "next_ref w1 = next_ref w" "heap w1 = (heap w)(a := Some (closed_conn c))"
      "calls w1 = calls w @ close_calls c"
    using on_conn_Close [OF assms(1,3)] .
  let ?w' = "snd (ConnectionPool_RemoveConnection os fd w)"
  have eval: "ConnectionPool_RemoveConnection os fd w = (Inr True, ?w')" "heap ?w' = heap w1"
    "calls ?w' = calls w1" "next_ref ?w' = next_ref w1"
    "cpool ?w' = (cpool w)\<lparr>connections := tbl_erase fd (get_pool w)\<rparr>"
    using assms close w1(1) by (auto simp: ConnectionPool_RemoveConnection_def prog_simps get_pool_def)
  have "cp_inv ?w'"
    by (rule cp_inv_filter [OF inv, where P = "\<lambda>p. fst p \<noteq> fd"])
       (simp_all add: eval(2-5) w1(1) get_pool_def tbl_erase_def)
  then show ?thesis
    by (intro that [of ?w', OF eval(1)]) (simp_all add: eval(2-5) w1 get_pool_def)
qed

section \<open>Shutdown\<close>

lemma close_each_spec:
  "cp_inv w \<Longrightarrow> distinct (map snd t) \<Longrightarrow> (\<forall>p \<in> set t. heap w (snd p) \<noteq> None) \<Longrightarrow>
   \<exists>w'. close_each os t w = (Inr (), w') \<and> cp_inv w' \<and> cpool w' = cpool w \<and> next_ref w' = next_ref w \<and>
     heap w' = (\<lambda>a. if a \<in> snd ` set t then map_option closed_conn (heap w a) else heap w a) \<and>
     calls w' = calls w @ concat (map (\<lambda>p. close_calls (the (heap w (snd p)))) t)"
proof (induction t arbitrary: w)
  case Nil
  then show ?case by (simp add: prog_simps)
next
  case (Cons p t)
  obtain c where c: "heap w (snd p) = Some c" using Cons.prems(3) by auto
  obtain w1 where close: "on_conn (snd p) (Connection_Close os) w = (Inr (), w1)" and inv: "cp_inv w1"
    and w1: "cpool w1 = cpool w" "next_ref w1 = next_ref w" "heap w1 = (heap w)(snd p := Some (closed_conn c))"
      "calls w1 = calls w @ close_calls c"
    using on_conn_Close [OF Cons.prems(1) c] .
  have p: "snd p \<notin> snd ` set t" using Cons.prems(2) by simp
  have same: "heap w1 (snd q) = heap w (snd q)" if "q \<in> set t" for q
    using imageI [OF that, of snd] p by (cases "snd q = snd p") (simp_all add: w1(3))
  have "distinct (map snd t)" "\<forall>q \<in> set t. heap w1 (snd q) \<noteq> None" using Cons.prems(2,3) same by simp_all
  from Cons.IH [OF inv this] obtain w' where w':
    "close_each os t w1 = (Inr (), w')" "cp_inv w'" "cpool w' = cpool w1" "next_ref w' = next_ref w1"
    "heap w' = (\<lambda>a. if a \<in> snd ` set t then map_option closed_conn (heap w1 a) else heap w1 a)"
    "calls w' = calls w1 @ concat (map (\<lambda>p. close_calls (the (heap w1 (snd p)))) t)"
    by blast
  have eq: "map (\<lambda>q. close_calls (the (heap w1 (snd q)))) t = map (\<lambda>q. close_calls (the (heap w (snd q)))) t"
    using same by simp
  have cl: "calls w' = calls w @ concat (map (\<lambda>q. close_calls (the (heap w (snd q)))) (p # t))"
    unfolding w'(6) w1(4) eq using c by simp
  have hp: "heap w' = (\<lambda>a. if a \<in> snd ` set (p # t) then map_option closed_conn (heap w a) else heap w a)"
    using c p by (auto simp: w'(5) w1(3) fun_eq_iff)
  have "close_each os (p # t) w = (Inr (), w')" using close w'(1) by (simp add: andthen_eval)
  then show ?case using w'(2-4) w1(1,2) cl hp by auto
qed

lemma count_closes:
  "distinct (map fst t) \<Longrightarrow> (\<forall>p \<in> set t. conn_fd (f (snd p)) = fst p \<or> conn_fd (f (snd p)) = - 1) \<Longrightarrow> fd \<noteq> - 1 \<Longrightarrow>
   count_list (concat (map (\<lambda>p. close_calls (f (snd p))) t)) (Sys_close fd) =
     (if \<exists>a. (fd, a) \<in> set t \<and> conn_state (f a) \<noteq> CLOSED \<and> conn_fd (f a) = fd then 1 else 0)"
proof (induction t)
  case (Cons p t)
  obtain k a where p: "p = (k, a)" by force
  have notin: "(k, b) \<notin> set t" for b using Cons.prems(1) p by force
  show ?case
  proof (cases "k = fd")
    case True
    then have "\<not> (\<exists>b. (fd, b) \<in> set t \<and> conn_state (f b) \<noteq> CLOSED \<and> conn_fd (f b) = fd)"
      using notin by blast
    with Cons show ?thesis
      using True notin p by (auto simp: close_calls_def)
  next
    case False
    then show ?thesis using Cons p by (auto simp: close_calls_def)
  qed
qed simp

lemma iter_table:
  assumes "iter_ok os"
  shows "set (os_iter os t) = set t" "distinct (map fst (os_iter os t)) = distinct (map fst t)"
    "distinct (map snd (os_iter os t)) = distinct (map snd t)"
proof -
  have m: "mset (os_iter os t) = mset t" using assms by (simp add: iter_ok_def)
  show "set (os_iter os t) = set t" by (rule mset_eq_setD [OF m])
  have "mset (map f (os_iter os t)) = mset (map f t)" for f :: "int \<times> nat \<Rightarrow> 'b"
    using m by simp
  then show "distinct (map fst (os_iter os t)) = distinct (map fst t)"
    "distinct (map snd (os_iter os t)) = distinct (map snd t)"
    by (metis mset_eq_imp_distinct_iff)+
qed

lemma StopHeartbeatCheck_eval:
  "ConnectionPool_StopHeartbeatCheck w =
    (if heartbeat_running (cpool w)
     then (Inr (), w\<lparr>cpool := (cpool w)\<lparr>heartbeat_running := False, heartbeat_thread := False\<rparr>,
                     logs := logs w @ [(INFO, ''ConnectionPool: heartbeat check stopped'')]\<rparr>)
     else (Inr (), w))"
  by (cases "heartbeat_thread (cpool w)")
     (simp_all add: ConnectionPool_StopHeartbeatCheck_def prog_simps)

text \<open>The pool after \<open>Shutdown\<close>, and what it did to the connections.\<close>

lemma StopHeartbeatCheck_spec:
  obtains w' where "ConnectionPool_StopHeartbeatCheck w = (Inr (), w')" "heap w' = heap w"
    "next_ref w' = next_ref w" "get_pool w' = get_pool w" "max_connections (cpool w') = max_connections (cpool w)"
    "cp_running (cpool w') = cp_running (cpool w)" "\<not> heartbeat_running (cpool w')" "calls w' = calls w"
proof
  let ?w' = "snd (ConnectionPool_StopHeartbeatCheck w)"
  show "ConnectionPool_StopHeartbeatCheck w = (Inr (), ?w')"
    by (simp add: StopHeartbeatCheck_eval)
qed (simp_all add: StopHeartbeatCheck_eval get_pool_def)

lemma Shutdown_spec:
  assumes "cp_inv w" "iter_ok os" "cp_running (cpool w)"
  obtains w' where "ConnectionPool_Shutdown os w = (Inr (), w')" "cp_inv w'" "get_pool w' = []"
    "max_connections (cpool w') = max_connections (cpool w)" "next_ref w' = next_ref w"
    "\<not> cp_running (cpool w')" "\<not> heartbeat_running (cpool w')"
    "heap w' = (\<lambda>a. if a \<in> snd ` set (get_pool w) then map_option closed_conn (heap w a) else heap w a)"
    "calls w' = calls w @ concat (map (\<lambda>p. close_calls (the (heap w (snd p)))) (os_iter os (get_pool w)))"
proof -
  let ?t = "os_iter os (get_pool w)"
  note iter = iter_table [OF assms(2), of "get_pool w"]
  obtain w0 where stop: "ConnectionPool_StopHeartbeatCheck w = (Inr (), w0)" and w0: "heap w0 = heap w"
    "next_ref w0 = next_ref w" "get_pool w0 = get_pool w" "max_connections (cpool w0) = max_connections (cpool w)"
    "cp_running (cpool w0) = cp_running (cpool w)" "\<not> heartbeat_running (cpool w0)" "calls w0 = calls w"
    by (rule StopHeartbeatCheck_spec)
  let ?w1 = "w0\<lparr>cpool := (cpool w0)\<lparr>cp_running := False\<rparr>\<rparr>"
  have h1: "heap ?w1 = heap w" using w0(1) by simp
  have inv: "cp_inv ?w1" using assms(1) w0(1-4) by (simp add: cp_inv_def get_pool_def)
  have "distinct (map snd ?t)" "\<forall>p \<in> set ?t. heap ?w1 (snd p) \<noteq> None"
    using assms(1) iter w0(1) by (auto simp: cp_inv_def)
  from close_each_spec [OF inv this] obtain w2 where
    w2: "close_each os ?t ?w1 = (Inr (), w2)" "cp_inv w2" "cpool w2 = cpool ?w1" "next_ref w2 = next_ref ?w1"
    "heap w2 = (\<lambda>a. if a \<in> snd ` set ?t then map_option closed_conn (heap ?w1 a) else heap ?w1 a)"
    "calls w2 = calls ?w1 @ concat (map (\<lambda>p. close_calls (the (heap ?w1 (snd p)))) ?t)"
    by blast
  let ?w' = "snd (ConnectionPool_Shutdown os w)"
  have eval: "ConnectionPool_Shutdown os w = (Inr (), ?w')" "heap ?w' = heap w2" "next_ref ?w' = next_ref w2"
    "cpool ?w' = (cpool w2)\<lparr>connections := []\<rparr>" "calls ?w' = calls w2"
    using stop assms(3) w0(3,5) w2(1)
    by (simp_all add: ConnectionPool_Shutdown_def prog_simps get_pool_def)
  show ?thesis
  proof (rule that [OF eval(1)])
    show "cp_inv ?w'"
      by (rule cp_inv_filter [OF w2(2), where P = "\<lambda>p. False"]) (simp_all add: eval(2-5) get_pool_def)
  qed (use w0 w2(3-6) [unfolded h1] iter(1) in \<open>simp_all add: eval(2-5) get_pool_def\<close>)
qed

section \<open>The heartbeat check\<close>

text \<open>A connection is late at time \<open>t\<close> when it was silent for more than the timeout.\<close>

definition late_at :: "int \<Rightarrow> int \<Rightarrow> Connection \<Rightarrow> bool" where
  "late_at timeout t c \<longleftrightarrow> (timeout + 1) * 1000000 \<le> t - last_heartbeat c"

lemma late_at_mono: "late_at timeout t c \<Longrightarrow> t \<le> t' \<Longrightarrow> late_at timeout t' c"
  by (simp add: late_at_def)

lemma collect_timeouts_spec:
  assumes "clock_monotone os" "0 \<le> timeout"
  shows "(\<forall>p \<in> set t. \<exists>c. heap w (snd p) = Some c) \<Longrightarrow> distinct (map fst t) \<Longrightarrow> t0 \<le> clock os (kst w) \<Longrightarrow>
    \<exists>fds w'. collect_timeouts os timeout t w = (Inr fds, w') \<and> sys_only w w' \<and>
      clock os (kst w) \<le> clock os (kst w') \<and> set fds \<subseteq> fst ` set t \<and>
      (\<forall>fd a c. (fd, a) \<in> set t \<longrightarrow> heap w a = Some c \<longrightarrow>
         (late_at timeout t0 c \<longrightarrow> fd \<in> set fds) \<and>
         (fd \<in> set fds \<longrightarrow> late_at timeout (clock os (kst w')) c))"
proof (induction t arbitrary: w)
  case Nil
  then show ?case by (simp add: prog_simps)
next
  case (Cons p t)
  obtain fd a where p: "p = (fd, a)" by force
  obtain c where c: "heap w a = Some c" using Cons.prems(1) p by auto
  let ?late = "late_at timeout (clock os (kst w)) c"
    and ?w1 = "w\<lparr>kst := snd (os_call os (kst w) Sys_clock)\<rparr>"
  have test: "Connection_IsTimeout os c timeout w = (Inr ?late, ?w1)"
    using IsTimeout_eval [OF assms(2)] by (simp add: late_at_def)
  have tick: "clock os (kst w) \<le> clock os (kst ?w1)" using assms(1) by (simp add: clock_monotone_def)
  have "\<forall>p \<in> set t. \<exists>c. heap ?w1 (snd p) = Some c" "distinct (map fst t)" "t0 \<le> clock os (kst ?w1)"
    using Cons.prems tick by simp_all
  from Cons.IH [OF this] obtain fds w' where
    ih: "collect_timeouts os timeout t ?w1 = (Inr fds, w')" "sys_only ?w1 w'"
      "clock os (kst ?w1) \<le> clock os (kst w')" "set fds \<subseteq> fst ` set t"
      "\<forall>fd a c. (fd, a) \<in> set t \<longrightarrow> heap w a = Some c \<longrightarrow>
         (late_at timeout t0 c \<longrightarrow> fd \<in> set fds) \<and>
         (fd \<in> set fds \<longrightarrow> late_at timeout (clock os (kst w')) c)"
    by auto
  have notin: "fd \<notin> fst ` set t" using Cons.prems(2) p by simp
  have so: "sys_only w w'" by (rule sys_only_trans [OF sys_only_steps(1) ih(2)])
  have run: "collect_timeouts os timeout (p # t) w = (Inr (if ?late then fd # fds else fds), w')"
    using c test ih(1) p by (simp add: prog_simps)
  have now: "clock os (kst w) \<le> clock os (kst w')" using tick ih(3) by simp
  have l: "late_at timeout t0 c \<Longrightarrow> ?late" "?late \<Longrightarrow> late_at timeout (clock os (kst w')) c"
    using late_at_mono Cons.prems(3) now by blast+
  have "(late_at timeout t0 c' \<longrightarrow> fd' \<in> set (if ?late then fd # fds else fds)) \<and>
      (fd' \<in> set (if ?late then fd # fds else fds) \<longrightarrow> late_at timeout (clock os (kst w')) c')"
    if "(fd', a') \<in> set (p # t)" "heap w a' = Some c'" for fd' a' c'
  proof (cases "fd' = fd")
    case True
    have "(fd', a') \<notin> set t" using notin True by (metis fst_conv imageI)
    then have "c' = c" using that c p by auto
    then show ?thesis using True l notin ih(4) by auto
  next
    case False
    then have "(fd', a') \<in> set t" using that(1) p by auto
    with False ih(5) that(2) show ?thesis by auto
  qed
  moreover have "set (if ?late then fd # fds else fds) \<subseteq> fst ` set (p # t)"
    using ih(4) p by auto
  ultimately show ?case using run so now by blast
qed

text \<open>The clock does not go back while connections are removed.\<close>

lemma keeps_kst:
  "keeps (\<lambda>w :: ('k, 'z) world_scheme. P (kst w)) (LOG lv m)" "keeps (\<lambda>w :: ('k, 'z) world_scheme. P (kst w)) (deref a)"
  "keeps (\<lambda>w :: ('k, 'z) world_scheme. P (kst w)) (set_pool f)"
  by (simp_all add: keeps_def LOG_eval deref_def set_pool_def modify_def split: option.split)

lemma remove_each_clock:
  assumes "clock_monotone os"
  shows "keeps (\<lambda>w :: ('k, 'z) world_scheme. t \<le> clock os (kst w)) (remove_each os fds)"
proof (induction fds)
  case Nil
  then show ?case by (simp add: keeps_basic)
next
  case (Cons fd fds)
  have close: "keeps (\<lambda>w :: ('k, 'z) world_scheme. t \<le> clock os (kst w)) (on_conn a (Connection_Close os))" for a
  proof (rule keepsI)
    fix w :: "('k, 'z) world_scheme" assume t: "t \<le> clock os (kst w)"
    have "clock os (kst w) \<le> clock os (snd (os_call os (kst w) c))" for c
      using assms by (simp add: clock_monotone_def)
    with t show "t \<le> clock os (kst (snd (on_conn a (Connection_Close os) w)))"
      by (auto simp: on_conn_def Close_eval Let_def split: option.split prod.split)
        (metis order_trans snd_conv)
  qed
  show ?case
    unfolding remove_each.simps ConnectionPool_RemoveConnection_def
    by (intro keeps_intros keeps_kst [where P = "\<lambda>k. t \<le> clock os k"] close Cons.IH)
qed

lemma RemoveConnection_spec:
  assumes "cp_inv w"
  obtains b w' where "ConnectionPool_RemoveConnection os fd w = (Inr b, w')" "cp_inv w'"
    "cpool w' = (cpool w)\<lparr>connections := tbl_erase fd (get_pool w)\<rparr>" "next_ref w' = next_ref w"
    "\<forall>p \<in> set (get_pool w). heap w' (snd p) =
       (if fst p = fd then map_option closed_conn (heap w (snd p)) else heap w (snd p))"
    "\<forall>a. a \<notin> snd ` set (get_pool w) \<longrightarrow> heap w' a = heap w a"
    "b \<longleftrightarrow> tbl_find (get_pool w) fd \<noteq> None"
proof (cases "tbl_find (get_pool w) fd")
  case None
  have notin: "fd \<notin> fst ` set (get_pool w)" using None by (simp add: tbl_find_def map_of_eq_None_iff)
  then have erase: "tbl_erase fd (get_pool w) = get_pool w"
    by (force simp: tbl_erase_def filter_id_conv)
  let ?w' = "w\<lparr>logs := logs w @ [(WARN, ''ConnectionPool: connection with fd='' @ to_string fd @ '' not found'')]\<rparr>"
  show ?thesis
  proof (rule that [OF RemoveConnection_missing [OF None]])
    show "cpool ?w' = (cpool w)\<lparr>connections := tbl_erase fd (get_pool w)\<rparr>"
      unfolding erase by (simp add: get_pool_def)
    show "\<forall>p \<in> set (get_pool w). heap ?w' (snd p) =
       (if fst p = fd then map_option closed_conn (heap w (snd p)) else heap w (snd p))"
      using notin by auto
  qed (use assms None in simp_all)
next
  case (Some a)
  obtain c where c: "heap w a = Some c" using cp_inv_entry [OF assms Some] by blast
  have key: "fst p = fd \<longleftrightarrow> snd p = a" if "p \<in> set (get_pool w)" for p
  proof -
    have "(fd, a) \<in> set (get_pool w)" "inj_on fst (set (get_pool w))" "inj_on snd (set (get_pool w))"
      using cp_inv_entry [OF assms Some] assms by (simp_all add: cp_inv_def tbl_ok_def distinct_map)
    then show ?thesis using that by (metis fst_conv inj_on_eq_iff snd_conv)
  qed
  obtain w' where w': "ConnectionPool_RemoveConnection os fd w = (Inr True, w')" "cp_inv w'"
    "get_pool w' = tbl_erase fd (get_pool w)" "heap w' = (heap w)(a := Some (closed_conn c))"
    "calls w' = calls w @ close_calls c" "next_ref w' = next_ref w"
    "cpool w' = (cpool w)\<lparr>connections := tbl_erase fd (get_pool w)\<rparr>"
    by (rule RemoveConnection_found [OF assms Some c])
  have "a \<in> snd ` set (get_pool w)" using cp_inv_entry(1) [OF assms Some] by force
  then show ?thesis
    using that [OF w'(1,2,7,6)] w'(4) key c Some by auto
qed

lemma remove_each_spec:
  "cp_inv w \<Longrightarrow> \<exists>w'. remove_each os fds w = (Inr (), w') \<and> cp_inv w' \<and>
     cpool w' = (cpool w)\<lparr>connections := filter (\<lambda>p. fst p \<notin> set fds) (get_pool w)\<rparr> \<and>
     next_ref w' = next_ref w \<and>
     (\<forall>p \<in> set (get_pool w). heap w' (snd p) =
        (if fst p \<in> set fds then map_option closed_conn (heap w (snd p)) else heap w (snd p))) \<and>
     (\<forall>a. a \<notin> snd ` set (get_pool w) \<longrightarrow> heap w' a = heap w a)"
proof (induction fds arbitrary: w)
  case Nil
  then show ?case by (simp add: prog_simps get_pool_def)
next
  case (Cons fd fds)
  let ?w0 = "w\<lparr>logs := logs w @ [(WARN, ''ConnectionPool: connection fd='' @ to_string fd @ '' timed out, removing'')]\<rparr>"
  let ?upd = "\<lambda>P h p. if P p then map_option closed_conn (h (snd p)) else h (snd p)"
  have pool0: "get_pool ?w0 = get_pool w" "cpool ?w0 = cpool w" "heap ?w0 = heap w" "next_ref ?w0 = next_ref w"
    by (simp_all add: get_pool_def)
  have "cp_inv ?w0" using Cons.prems by simp
  then obtain b w1 where
    r: "ConnectionPool_RemoveConnection os fd ?w0 = (Inr b, w1)" and inv1: "cp_inv w1"
    and w1: "cpool w1 = (cpool w)\<lparr>connections := tbl_erase fd (get_pool w)\<rparr>" "next_ref w1 = next_ref w"
      "\<forall>p \<in> set (get_pool w). heap w1 (snd p) = ?upd (\<lambda>p. fst p = fd) (heap w) p"
      "\<forall>a. a \<notin> snd ` set (get_pool w) \<longrightarrow> heap w1 a = heap w a"
    by (rule RemoveConnection_spec [of ?w0 os fd, unfolded pool0])
  have pool1: "get_pool w1 = filter (\<lambda>p. fst p \<noteq> fd) (get_pool w)"
    by (simp add: get_pool_def w1(1) tbl_erase_def)
  from Cons.IH [OF inv1] obtain w' where
    w': "remove_each os fds w1 = (Inr (), w')" "cp_inv w'"
      "cpool w' = (cpool w1)\<lparr>connections := filter (\<lambda>p. fst p \<notin> set fds) (get_pool w1)\<rparr>"
      "next_ref w' = next_ref w1"
      "\<forall>p \<in> set (get_pool w1). heap w' (snd p) = ?upd (\<lambda>p. fst p \<in> set fds) (heap w1) p"
      "\<forall>a. a \<notin> snd ` set (get_pool w1) \<longrightarrow> heap w' a = heap w1 a"
    by blast
  have "heap w' (snd p) = ?upd (\<lambda>p. fst p \<in> set (fd # fds)) (heap w) p" if p: "p \<in> set (get_pool w)" for p
  proof (cases "fst p = fd")
    case True
    have "inj_on snd (set (get_pool w))" using Cons.prems by (simp add: cp_inv_def distinct_map)
    then have "snd p \<notin> snd ` set (get_pool w1)"
      using p True unfolding pool1 by (auto dest: inj_onD)
    then show ?thesis using True w'(6) w1(3) p by simp
  next
    case False
    then have "p \<in> set (get_pool w1)" using p pool1 by simp
    then show ?thesis using False w'(5) w1(3) p by auto
  qed
  moreover have "heap w' a = heap w a" if "a \<notin> snd ` set (get_pool w)" for a
    using that w'(6) w1(4) unfolding pool1 by auto
  moreover have "remove_each os (fd # fds) w = (Inr (), w')"
    using r w'(1) by (simp add: prog_simps)
  moreover have "cpool w' = (cpool w)\<lparr>connections := filter (\<lambda>p. fst p \<notin> set (fd # fds)) (get_pool w)\<rparr>"
    unfolding w'(3) pool1 w1(1) by (simp add: conj_commute)
  ultimately show ?case using w'(2,4) w1(2) by auto
qed

lemma collect_timeouts_total:
  "(\<forall>p \<in> set t. heap w (snd p) \<noteq> None) \<Longrightarrow>
     \<exists>fds w'. collect_timeouts os timeout t w = (Inr fds, w') \<and> sys_only w w'"
proof (induction t arbitrary: w)
  case Nil
  then show ?case by (auto simp: prog_simps)
next
  case (Cons p t)
  obtain c where c: "heap w (snd p) = Some c" using Cons.prems by auto
  obtain late w1 where l: "Connection_IsTimeout os c timeout w = (Inr late, w1)" "sys_only w w1"
    by (simp add: Connection_IsTimeout_def prog_simps)
  have "\<forall>p \<in> set t. heap w1 (snd p) \<noteq> None" using Cons.prems l(2) by simp
  from Cons.IH [OF this] obtain fds w' where "collect_timeouts os timeout t w1 = (Inr fds, w')" "sys_only w1 w'"
    by blast
  with c l show ?case using sys_only_trans by (fastforce simp: prog_simps)
qed

lemma heartbeat_round_run:
  assumes "cp_inv w"
    and "collect_timeouts os (heartbeat_timeout_ms (cpool w)) (os_iter os (get_pool w)) w = (Inr fds, w1)"
    and "sys_only w w1"
  obtains w' where "heartbeat_round os w = (Inr (), w')" "cp_inv w'" "next_ref w' = next_ref w"
    "cpool w' = (cpool w)\<lparr>connections := filter (\<lambda>p. fst p \<notin> set fds) (get_pool w)\<rparr>"
    "\<forall>p \<in> set (get_pool w). heap w' (snd p) =
        (if fst p \<in> set fds then map_option closed_conn (heap w (snd p)) else heap w (snd p))"
    "kst w' = kst (snd (remove_each os fds w1))"
proof -
  have "cp_inv w1" using assms(1,3) by (rule cp_inv_sys_only)
  from remove_each_spec [OF this, of os fds] obtain w2 where
    w2: "remove_each os fds w1 = (Inr (), w2)" "cp_inv w2" "next_ref w2 = next_ref w"
      "cpool w2 = (cpool w)\<lparr>connections := filter (\<lambda>p. fst p \<notin> set fds) (get_pool w)\<rparr>"
      "\<forall>p \<in> set (get_pool w). heap w2 (snd p) =
        (if fst p \<in> set fds then map_option closed_conn (heap w (snd p)) else heap w (snd p))"
    using assms(3) by auto
  have so: "sys_only w2 (snd (heartbeat_round os w))" and run: "fst (heartbeat_round os w) = Inr ()"
    and k: "kst (snd (heartbeat_round os w)) = kst (snd (remove_each os fds w1))"
    using assms(2) w2(1) by (simp_all add: heartbeat_round_def get_pool_def prog_simps)
  show ?thesis
    by (rule that [of "snd (heartbeat_round os w)"])
       (use w2 so run k cp_inv_sys_only [OF w2(2) so] in \<open>simp_all add: prod_eq_iff\<close>)
qed

section \<open>Reachable states\<close>

text \<open>
  What the threads of the server do with the pool: create connections, add, remove and
  look up, use a connection, check for timeouts, start and stop.
\<close>

inductive cp_step :: "'k os \<Rightarrow> ('k, 'z) world_scheme \<Rightarrow> ('k, 'z) world_scheme \<Rightarrow> bool" for os where
  cp_make: "cp_step os w (snd (make_conn os fd ip port w))"
| cp_add: "heap w a = Some c \<Longrightarrow> a \<notin> snd ` set (get_pool w) \<Longrightarrow> cp_step os w (snd (ConnectionPool_AddConnection a w))"
| cp_remove: "cp_step os w (snd (ConnectionPool_RemoveConnection os fd w))"
| cp_use: "heap w a = Some c \<Longrightarrow> conn_step os (c, w) (c', w') \<Longrightarrow> cp_step os w (w'\<lparr>heap := (heap w')(a := Some c')\<rparr>)"
| cp_heartbeat: "cp_step os w (snd (heartbeat_round os w))"
| cp_start_heartbeat: "cp_step os w (snd (ConnectionPool_StartHeartbeatCheck w))"
| cp_stop_heartbeat: "cp_step os w (snd (ConnectionPool_StopHeartbeatCheck w))"
| cp_shutdown: "cp_step os w (snd (ConnectionPool_Shutdown os w))"

text \<open>\<open>pool_ok m\<close>: the invariant, and the limit is the configured one.\<close>

definition pool_ok :: "size_t \<Rightarrow> ('k, 'z) world_scheme \<Rightarrow> bool" where
  "pool_ok m w \<longleftrightarrow> cp_inv w \<and> max_connections (cpool w) = m"

lemma make_conn_spec:
  assumes "cp_inv w"
  obtains w' where "make_conn os fd ip port w = (Inr (next_ref w), w')" "cp_inv w'" "cpool w' = cpool w"
    "next_ref w' = Suc (next_ref w)" "calls w' = calls w" "errno w' = errno w"
    "kst w' = snd (os_call os (kst w) Sys_clock)"
    "\<exists>c. heap w' = (heap w)(next_ref w := Some c) \<and> conn_fd c = fd \<and> conn_state c = CONNECTING \<and>
       unread c = [] \<and> unsent c = [] \<and> conn_ip c = ip \<and> conn_port c = port"
proof -
  obtain c w1 where new: "Connection_new os fd ip port w = (Inr c, w1)" "sys_only w w1" "calls w1 = calls w" "errno w1 = errno w"
      "kst w1 = snd (os_call os (kst w) Sys_clock)"
    by (simp add: Connection_new_def prog_simps Let_def)
  note c = Connection_new_eval [OF new(1)]
  let ?w' = "w1\<lparr>heap := (heap w)(next_ref w := Some c), next_ref := Suc (next_ref w)\<rparr>"
  have run: "make_conn os fd ip port w = (Inr (next_ref w), ?w')"
    using new by (simp add: make_conn_def prog_simps)
  have "next_ref w \<noteq> a" if "(k, a) \<in> set (get_pool w)" for k a
    using assms that unfolding cp_inv_def by fastforce
  then have "cp_inv ?w'"
    using assms new(2) c unfolding cp_inv_def
    by (auto simp: get_pool_def less_Suc_eq)
  then show ?thesis using that [OF run] new c by auto
qed

lemma pool_ok_step:
  assumes "recv_ok os" "send_ok os" "iter_ok os" "cp_step os w w'" "pool_ok m w"
  shows "pool_ok m w'"
  using assms(4)
proof cases
  case (cp_make fd ip port)
  then show ?thesis using assms(5) by (auto simp: pool_ok_def elim!: make_conn_spec [of w os fd ip port])
next
  case (cp_add a c)
  have inv: "cp_inv w" using assms(5) by (simp add: pool_ok_def)
  show ?thesis
  proof (cases "can_add w (conn_fd c)")
    case True
    with assms(5) cp_add show ?thesis
      by (auto simp: pool_ok_def elim!: AddConnection_added [OF inv cp_add(2,3)])
  next
    case False
    with assms(5) cp_add show ?thesis
      by (auto simp: pool_ok_def intro: cp_inv_sys_only elim!: AddConnection_refused [OF cp_add(2)])
  qed
next
  case (cp_remove fd)
  then show ?thesis using assms(5) by (auto simp: pool_ok_def elim!: RemoveConnection_spec [of w os fd])
next
  case (cp_use a c c' w1)
  have "conn_keeps (c, w) (c', w1)"
    using conn_step_keeps [OF assms(1,2) cp_use(3)] assms(5) cp_use(2) by (auto simp: pool_ok_def cp_inv_def)
  then show ?thesis
    using on_conn_keeps(1,3) [of w a c "\<lambda>_. (Inr (), (c', w1))"] cp_use assms(5)
    by (simp add: pool_ok_def on_conn_eval)
next
  case cp_heartbeat
  have inv: "cp_inv w" using assms(5) by (simp add: pool_ok_def)
  have "\<forall>p \<in> set (os_iter os (get_pool w)). heap w (snd p) \<noteq> None"
    using inv iter_table(1) [OF assms(3)] by (auto simp: cp_inv_def)
  from collect_timeouts_total [OF this] obtain fds w1 where
    "collect_timeouts os (heartbeat_timeout_ms (cpool w)) (os_iter os (get_pool w)) w = (Inr fds, w1)" "sys_only w w1"
    by blast
  then show ?thesis
    using assms(5) cp_heartbeat by (auto simp: pool_ok_def elim!: heartbeat_round_run [OF inv])
next
  case cp_start_heartbeat
  then show ?thesis
    using assms(5) by (auto simp: pool_ok_def cp_inv_def get_pool_def ConnectionPool_StartHeartbeatCheck_def prog_simps)
next
  case cp_stop_heartbeat
  then show ?thesis
    using assms(5) by (auto simp: pool_ok_def cp_inv_def get_pool_def StopHeartbeatCheck_eval)
next
  case cp_shutdown
  have inv: "cp_inv w" using assms(5) by (simp add: pool_ok_def)
  show ?thesis
  proof (cases "cp_running (cpool w)")
    case True
    with assms(5) cp_shutdown show ?thesis
      by (auto simp: pool_ok_def elim!: Shutdown_spec [OF inv assms(3)])
  next
    case False
    then show ?thesis
      using assms(5) cp_shutdown
      by (auto simp: pool_ok_def cp_inv_def get_pool_def StopHeartbeatCheck_eval ConnectionPool_Shutdown_def prog_simps)
  qed
qed

text \<open>The state of the process when the pool is initialised.\<close>

definition fresh_world :: "('k, 'z) world_scheme \<Rightarrow> bool" where
  "fresh_world w \<longleftrightarrow> heap w = (\<lambda>_. None) \<and> next_ref w = 0 \<and> cpool w = ConnectionPool_default"

lemma Init_pool_ok: "fresh_world w \<Longrightarrow> pool_ok m (snd (ConnectionPool_Init os m t w))"
  by (auto simp: ConnectionPool_Init_def fresh_world_def ConnectionPool_default_def pool_ok_def cp_inv_def
      get_pool_def tbl_ok_def prog_simps split: sum.split)

lemma pool_ok_steps:
  assumes "recv_ok os" "send_ok os" "iter_ok os" "(cp_step os)\<^sup>*\<^sup>* w w'" "pool_ok m w"
  shows "pool_ok m w'"
  using assms(4,5) by induction (auto intro: pool_ok_step [OF assms(1-3)])

section \<open>Programs that keep the pool in order\<close>

lemma pool_ok_sys_only: "pool_ok m w \<Longrightarrow> sys_only w w' \<Longrightarrow> pool_ok m w'"
  by (auto simp: pool_ok_def intro: cp_inv_sys_only)

lemma keeps_sys [keeps_intros]: "keeps (pool_ok m) (syscall os c)" "keeps (pool_ok m) (LOG lv msg)"
    "keeps (pool_ok m) (steady_now os)"
  by (auto intro!: keepsI elim!: pool_ok_sys_only simp: sys_only_syscall)

lemma keeps_deref [keeps_intros]:
  fixes f :: "Connection \<Rightarrow> (('k, 'z) world_scheme, 'c) prog"
  assumes "\<And>c. conn_inv c \<Longrightarrow> keeps (pool_ok m) (f c)"
  shows "keeps (pool_ok m) (bnd (deref a) f)"
proof (rule keepsI)
  fix w :: "('k, 'z) world_scheme" assume ok: "pool_ok m w"
  show "pool_ok m (snd (bnd (deref a) f w))"
  proof (cases "heap w a")
    case None
    then show ?thesis using ok by (simp add: bnd_eval deref_def)
  next
    case (Some c)
    then have "conn_inv c" using ok by (auto simp: pool_ok_def cp_inv_def)
    with assms ok Some show ?thesis by (simp add: bnd_eval deref_eval keeps_def)
  qed
qed

lemma keeps_on_conn:
  fixes f :: "(Connection \<times> ('k, 'z) world_scheme, 'c) prog"
  assumes "\<And>c w. conn_inv c \<Longrightarrow> conn_keeps (c, w) (snd (f (c, w)))"
  shows "keeps (pool_ok m) (on_conn a f)"
proof (rule keepsI)
  fix w :: "('k, 'z) world_scheme" assume ok: "pool_ok m w"
  show "pool_ok m (snd (on_conn a f w))"
  proof (cases "heap w a")
    case None
    then show ?thesis using ok by (simp add: on_conn_def)
  next
    case (Some c)
    then have "conn_inv c" using ok by (auto simp: pool_ok_def cp_inv_def)
    with on_conn_keeps(1,3) [of w a c f] ok Some assms show ?thesis by (simp add: pool_ok_def)
  qed
qed

lemma RemoveConnection_pool_ok: "pool_ok m w \<Longrightarrow> pool_ok m (snd (ConnectionPool_RemoveConnection os fd w))"
  unfolding pool_ok_def by (erule conjE, rule RemoveConnection_spec [of w os fd]) simp_all

lemma keeps_pool_ops [keeps_intros]:
  "keeps (pool_ok m) (ConnectionPool_RemoveConnection os fd)" "keeps (pool_ok m) (ConnectionPool_GetConnection fd)"
  by (simp_all add: keeps_def RemoveConnection_pool_ok)
     (simp add: ConnectionPool_GetConnection_def prog_simps)

lemma ends_conn [keeps_intros]: "ends (deref a)" "ends m \<Longrightarrow> ends (on_conn a m)" "ends (set_pool f)"
proof -
  show "ends (deref a)" by (simp add: ends_def deref_def split: option.split)
  show "ends (set_pool f)" by (simp add: ends_def set_pool_eval)
  assume m: "ends m"
  show "ends (on_conn a m)" unfolding ends_def
  proof
    fix w
    show "fst (on_conn a m w) \<noteq> Inl Diverges"
      using endsD [OF m] by (auto simp: on_conn_def split: option.split prod.split) (metis fst_conv)
  qed
qed

lemma ends_conn_ops [keeps_intros]:
  "ends (Connection_UpdateHeartbeat os)" "ends (io_failed os what r)" "ends (resize_prog os g n)"
  "ends (store_received bs n)" "ends (drop_sent n)" "ends (copy_bytes bs)" "ends (Connection_ConsumeReadBuffer n)"
  unfolding Connection_UpdateHeartbeat_def io_failed_def set_closed_def resize_prog_def case_prod_unfold
    store_received_def drop_sent_def copy_bytes_def Connection_ConsumeReadBuffer_def
  by (intro keeps_intros exn.distinct)+

lemma ends_Close [keeps_intros]: "ends (Connection_Close os)"
  unfolding Connection_Close_def set_closed_def by (intro keeps_intros)

lemma ends_Send [keeps_intros]: "ends (Connection_Send os)"
  unfolding Connection_Send_def by (intro keeps_intros)

lemma ends_AppendWriteBuffer [keeps_intros]: "ends (Connection_AppendWriteBuffer os bs)"
  unfolding Connection_AppendWriteBuffer_def Let_def by (intro keeps_intros)

lemma ends_pool_ops [keeps_intros]:
  "ends (ConnectionPool_GetConnection fd)" "ends (ConnectionPool_RemoveConnection os fd)"
  unfolding ConnectionPool_GetConnection_def ConnectionPool_RemoveConnection_def by (intro keeps_intros)+

section \<open>Properties\<close>

definition demo_world :: "reply list \<Rightarrow> reply list world" where
  "demo_world rs = \<lparr>kst = rs, errno = 0, calls = [], logs = [], heap = (\<lambda>_. None), next_ref = 0,
     cpool = ConnectionPool_default\<rparr>"

text \<open>A pool with one connection, for the witnesses.\<close>

definition demo_pooled :: "reply list \<Rightarrow> reply list world" where
  "demo_pooled rs = (demo_world rs)\<lparr>heap := [0 \<mapsto> demo_conn], next_ref := 1,
     cpool := ConnectionPool_default\<lparr>connections := [(7, 0)], max_connections := 2, cp_running := True,
       heartbeat_timeout_ms := 10, heartbeat_running := True\<rparr>\<rparr>"

lemma demo_pooled_inv:
  "cp_inv (demo_pooled rs)" "get_pool (demo_pooled rs) = [(7, 0)]" "heap (demo_pooled rs) 0 = Some demo_conn"
  "cp_running (cpool (demo_pooled rs))" "max_connections (cpool (demo_pooled rs)) = 2"
  by (auto simp: demo_pooled_def demo_world_def cp_inv_def get_pool_def tbl_ok_def demo_conn_inv split: if_splits)

text \<open>
  C3: In every reachable state of the connection pool, whatever the kernel does and in
  whatever order connections are created, added, used, removed, timed out or shut down:
  the table has at most the configured number of entries, one per descriptor; each entry is
  a live object whose buffers are well formed and whose descriptor is the key of the entry,
  or has been closed; and no object is in the table twice.
\<close>

theorem cpool_reachable_inv:
  assumes "recv_ok os" "send_ok os" "iter_ok os" "fresh_world w"
    "(cp_step os)\<^sup>*\<^sup>* (snd (ConnectionPool_Init os m timeout w)) w'"
  shows "length (get_pool w') \<le> m \<and> distinct (map fst (get_pool w')) \<and> distinct (map snd (get_pool w')) \<and>
    (\<forall>fd a. tbl_find (get_pool w') fd = Some a \<longrightarrow>
       (\<exists>c. heap w' a = Some c \<and> conn_inv c \<and> (conn_fd c = fd \<or> conn_fd c = - 1)))"
proof -
  have ok: "pool_ok m w'"
    by (rule pool_ok_steps [OF assms(1-3,5) Init_pool_ok [OF assms(4)]])
  then have "cp_inv w'" by (simp add: pool_ok_def)
  have "\<exists>c. heap w' a = Some c \<and> conn_inv c \<and> (conn_fd c = fd \<or> conn_fd c = - 1)"
    if "tbl_find (get_pool w') fd = Some a" for fd a
    using cp_inv_entry(2) [OF \<open>cp_inv w'\<close> that] by blast
  with ok show ?thesis by (auto simp: pool_ok_def cp_inv_def tbl_ok_def)
qed

lemma cpool_reachable_inv_witness:
  "fresh_world (demo_world []) \<and>
   length (get_pool (snd (heartbeat_round script_os (snd (ConnectionPool_Init script_os 2 10 (demo_world [])))))) \<le> 2"
proof -
  have fresh: "fresh_world (demo_world [])" by (simp add: fresh_world_def demo_world_def)
  have "(cp_step script_os)\<^sup>*\<^sup>* (snd (ConnectionPool_Init script_os 2 10 (demo_world [])))
      (snd (heartbeat_round script_os (snd (ConnectionPool_Init script_os 2 10 (demo_world [])))))"
    by (rule r_into_rtranclp) (rule cp_heartbeat)
  from cpool_reachable_inv [OF script_call_ok(1,2,4) fresh this] fresh show ?thesis by simp
qed

text \<open>
  C7: The pool refines a finite map of bounded size. \<open>AddConnection\<close> succeeds exactly when the
  pool runs, has fewer entries than its limit and has no entry for the descriptor, and then
  it is an update of the map at the descriptor; \<open>RemoveConnection\<close> succeeds exactly when there is
  an entry and deletes it; \<open>GetConnection\<close> is a lookup; the count is the size of the map.
  An operation that fails leaves the map alone, and adding makes no system call.
\<close>

theorem cpool_refines_map:
  assumes "cp_inv w" "heap w a = Some c" "a \<notin> snd ` set (get_pool w)"
  shows "(\<exists>b w'. ConnectionPool_AddConnection a w = (Inr b, w') \<and>
      b = (cp_running (cpool w) \<and> card (dom (tbl_find (get_pool w))) < max_connections (cpool w) \<and>
           tbl_find (get_pool w) (conn_fd c) = None) \<and>
      tbl_find (get_pool w') = (if b then (tbl_find (get_pool w))(conn_fd c \<mapsto> a) else tbl_find (get_pool w)) \<and>
      calls w' = calls w \<and> heap w' = heap w \<and> cp_inv w') \<and>
    (\<exists>b w'. ConnectionPool_RemoveConnection os fd w = (Inr b, w') \<and>
      b = (tbl_find (get_pool w) fd \<noteq> None) \<and> tbl_find (get_pool w') = (tbl_find (get_pool w))(fd := None) \<and> cp_inv w') \<and>
    ConnectionPool_GetConnection fd w = (Inr (tbl_find (get_pool w) fd), w) \<and>
    ConnectionPool_GetConnectionCount w = (Inr (card (dom (tbl_find (get_pool w)))), w)"
proof (intro conjI)
  have ok: "tbl_ok (get_pool w)" using assms(1) by (simp add: cp_inv_def)
  have size: "card (dom (tbl_find (get_pool w))) = length (get_pool w)" by (rule tb.size_dom [OF ok, symmetric])
  show "\<exists>b w'. ConnectionPool_AddConnection a w = (Inr b, w') \<and>
      b = (cp_running (cpool w) \<and> card (dom (tbl_find (get_pool w))) < max_connections (cpool w) \<and>
           tbl_find (get_pool w) (conn_fd c) = None) \<and>
      tbl_find (get_pool w') = (if b then (tbl_find (get_pool w))(conn_fd c \<mapsto> a) else tbl_find (get_pool w)) \<and>
      calls w' = calls w \<and> heap w' = heap w \<and> cp_inv w'"
  proof (cases "can_add w (conn_fd c)")
    case True
    obtain w' where "ConnectionPool_AddConnection a w = (Inr True, w')" "cp_inv w'" "heap w' = heap w"
      "cpool w' = (cpool w)\<lparr>connections := tbl_put (conn_fd c) a (get_pool w)\<rparr>" "calls w' = calls w"
      by (rule AddConnection_added [OF assms True]) blast
    moreover from this(4) have "tbl_find (get_pool w') = (tbl_find (get_pool w))(conn_fd c \<mapsto> a)"
      using tb.find_put [OF ok, of "conn_fd c" a] by (simp add: get_pool_def)
    ultimately show ?thesis using True by (intro exI [of _ True] exI [of _ w']) (simp add: can_add_def size)
  next
    case False
    obtain w' where "ConnectionPool_AddConnection a w = (Inr False, w')" "sys_only w w'" "calls w' = calls w"
      by (rule AddConnection_refused [OF assms(2) False]) blast
    with False show ?thesis
      using cp_inv_sys_only [OF assms(1)] by (auto simp: can_add_def size)
  qed
  show "\<exists>b w'. ConnectionPool_RemoveConnection os fd w = (Inr b, w') \<and>
      b = (tbl_find (get_pool w) fd \<noteq> None) \<and> tbl_find (get_pool w') = (tbl_find (get_pool w))(fd := None) \<and> cp_inv w'"
    by (rule RemoveConnection_spec [OF assms(1), of os fd])
       (use tb.find_erase [OF ok, of fd] in \<open>simp add: get_pool_def\<close>)
  show "ConnectionPool_GetConnectionCount w = (Inr (card (dom (tbl_find (get_pool w)))), w)"
    by (simp add: ConnectionPool_GetConnectionCount_def prog_simps size)
qed (simp add: ConnectionPool_GetConnection_def prog_simps)

definition demo_adding :: "reply list world" where
  "demo_adding = (demo_pooled [])\<lparr>heap := [0 \<mapsto> demo_conn, 1 \<mapsto> demo_conn\<lparr>conn_fd := 8\<rparr>], next_ref := 2\<rparr>"

lemma cpool_refines_map_witness:
  "\<exists>w'. ConnectionPool_AddConnection 1 demo_adding = (Inr True, w') \<and>
     tbl_find (get_pool w') 8 = Some 1 \<and> tbl_find (get_pool w') 7 = Some 0"
proof -
  have w: "get_pool demo_adding = [(7, 0)]" "heap demo_adding 1 = Some (demo_conn\<lparr>conn_fd := 8\<rparr>)"
    "cp_running (cpool demo_adding)" "max_connections (cpool demo_adding) = 2"
    using demo_pooled_inv [of "[]"] by (simp_all add: demo_adding_def get_pool_def)
  have inv: "cp_inv demo_adding"
    using demo_pooled_inv [of "[]"] by (auto simp: cp_inv_def w demo_conn_inv tbl_ok_def)
       (auto simp: demo_adding_def demo_conn_inv split: if_splits)
  have "1 \<notin> snd ` set (get_pool demo_adding)" by (simp add: w)
  from conjunct1 [OF cpool_refines_map [OF inv w(2) this, of undefined 8]] obtain b w' where
    "ConnectionPool_AddConnection 1 demo_adding = (Inr b, w')"
    "b = (card (dom (tbl_find [(7, 0 :: nat)])) < 2 \<and> tbl_find [(7, 0 :: nat)] 8 = None)"
    "tbl_find (get_pool w') = (if b then (tbl_find [(7, 0)])(8 \<mapsto> 1) else tbl_find [(7, 0)])"
    by (auto simp: w)
  moreover have "card (dom (tbl_find [(7, 0 :: nat)])) = 1" by (simp add: tbl_find_eq)
  ultimately show ?thesis by (auto simp: tbl_find_eq)
qed

text \<open>
  C10: One round of the heartbeat check, on a steady clock (one that never goes back). It
  removes from the pool, and closes, every connection that is late when the round begins,
  keeps every connection that is not late when the round ends, together with its object, and
  leaves the invariant intact. The table may be iterated in any order.
\<close>

theorem heartbeat_removes_late:
  assumes "cp_inv w" "iter_ok os" "clock_monotone os" "0 \<le> heartbeat_timeout_ms (cpool w)"
  shows "\<exists>w'. heartbeat_round os w = (Inr (), w') \<and> cp_inv w' \<and>
    (\<forall>fd a c. tbl_find (get_pool w) fd = Some a \<longrightarrow> heap w a = Some c \<longrightarrow>
       (late_at (heartbeat_timeout_ms (cpool w)) (clock os (kst w)) c \<longrightarrow>
          tbl_find (get_pool w') fd = None \<and> heap w' a = Some (closed_conn c)) \<and>
       (\<not> late_at (heartbeat_timeout_ms (cpool w)) (clock os (kst w')) c \<longrightarrow>
          tbl_find (get_pool w') fd = Some a \<and> heap w' a = Some c))"
proof -
  let ?t = "os_iter os (get_pool w)" and ?T = "heartbeat_timeout_ms (cpool w)" and ?now = "clock os (kst w)"
  note iter = iter_table [OF assms(2), of "get_pool w"]
  have ok: "distinct (map fst ?t)" using assms(1) iter by (simp add: cp_inv_def tbl_ok_def)
  have "\<forall>p \<in> set ?t. \<exists>c. heap w (snd p) = Some c"
    using assms(1) iter by (fastforce simp: cp_inv_def)
  from collect_timeouts_spec [OF assms(3,4) this ok order_refl] obtain fds w1 where
    col: "collect_timeouts os ?T ?t w = (Inr fds, w1)" "sys_only w w1"
    and fds: "\<forall>fd a c. (fd, a) \<in> set (get_pool w) \<longrightarrow> heap w a = Some c \<longrightarrow>
         (late_at ?T ?now c \<longrightarrow> fd \<in> set fds) \<and> (fd \<in> set fds \<longrightarrow> late_at ?T (clock os (kst w1)) c)"
    using iter(1) by auto
  obtain w' where w': "heartbeat_round os w = (Inr (), w')" "cp_inv w'"
    "cpool w' = (cpool w)\<lparr>connections := filter (\<lambda>p. fst p \<notin> set fds) (get_pool w)\<rparr>"
    "\<forall>p \<in> set (get_pool w). heap w' (snd p) =
        (if fst p \<in> set fds then map_option closed_conn (heap w (snd p)) else heap w (snd p))"
    "kst w' = kst (snd (remove_each os fds w1))"
    by (rule heartbeat_round_run [OF assms(1) col])
  have "clock os (kst w1) \<le> clock os (kst w')"
    using remove_each_clock [OF assms(3)] unfolding keeps_def w'(5) by blast
  then have fds': "fd \<in> set fds \<Longrightarrow> late_at ?T (clock os (kst w')) c"
    if "(fd, a) \<in> set (get_pool w)" "heap w a = Some c" for fd a c
    using fds that late_at_mono by blast
  have pool: "tbl_find (get_pool w') fd = (if fd \<in> set fds then None else tbl_find (get_pool w) fd)" for fd
    by (simp add: get_pool_def w'(3) tbl_find_eq map_of_filter_key [where P = "\<lambda>k. k \<notin> set fds"])
  have "(late_at ?T ?now c \<longrightarrow> tbl_find (get_pool w') fd = None \<and> heap w' a = Some (closed_conn c)) \<and>
      (\<not> late_at ?T (clock os (kst w')) c \<longrightarrow> tbl_find (get_pool w') fd = Some a \<and> heap w' a = Some c)"
    if "tbl_find (get_pool w) fd = Some a" "heap w a = Some c" for fd a c
    using cp_inv_entry(1) [OF assms(1) that(1)] that fds fds' w'(4) pool by fastforce
  with w' show ?thesis by blast
qed

text \<open>
  A kernel whose state is the time, and a connection that the program creates and pools on it,
  with the heartbeat read from that clock. Each call takes 12 ms, the timeout is 10 ms.
\<close>

definition tick_os :: "int os" where
  "tick_os = \<lparr>os_call = (\<lambda>k c. (reply_of k 0 [], k + 12000000)), os_strerror = (\<lambda>e. ''error''),
     os_pton = (\<lambda>s. Some 0), os_ntop = (\<lambda>a. ''0.0.0.0''), os_iter = (\<lambda>m. m),
     os_new_array = (\<lambda>n. if n < 2 ^ 63 then Some 4096 else None), os_grant = (\<lambda>k n. True), os_cpus = 4, os_thread_hash = (\<lambda>t. t)\<rparr>"

definition tick_start :: "int world" where
  "tick_start = \<lparr>kst = 0, errno = 0, calls = [], logs = [], heap = (\<lambda>_. None), next_ref = 0,
     cpool = ConnectionPool_default\<lparr>max_connections := 2, cp_running := True, heartbeat_timeout_ms := 10\<rparr>\<rparr>"

definition tick_world :: "int world" where
  "tick_world = snd (ConnectionPool_AddConnection 0 (snd (make_conn tick_os 7 ''10.0.0.1'' 80 tick_start)))"

lemma tick_world_eval:
  "clock_monotone tick_os" "iter_ok tick_os" "cp_inv tick_world" "heartbeat_timeout_ms (cpool tick_world) = 10"
  "tbl_find (get_pool tick_world) 7 = Some 0"
  "\<exists>c. heap tick_world 0 = Some c \<and> late_at 10 (clock tick_os (kst tick_world)) c"
proof -
  show "clock_monotone tick_os" "iter_ok tick_os"
    by (simp_all add: clock_monotone_def clock_def iter_ok_def tick_os_def reply_of_def)
  obtain ls where w: "tick_world = tick_start\<lparr>kst := 12000000, logs := ls, next_ref := 1,
      cpool := (cpool tick_start)\<lparr>connections := [(7, 0)]\<rparr>,
      heap := [0 \<mapsto> \<lparr>conn_fd = 7, conn_ip = ''10.0.0.1'', conn_port = 80, conn_state = CONNECTING,
              last_heartbeat = 0, read_buffer = [], write_buffer = [], read_idx = 0, write_idx = 0\<rparr>]\<rparr>"
    by (simp add: tick_world_def make_conn_def Connection_new_def ConnectionPool_AddConnection_def
        prog_simps tick_start_def tick_os_def reply_of_def deref_def set_pool_def ConnectionPool_default_def
        tbl_find_def tbl_put_def Connection_GetFd_def Let_def)
  show "cp_inv tick_world" "heartbeat_timeout_ms (cpool tick_world) = 10"
    "tbl_find (get_pool tick_world) 7 = Some 0"
    "\<exists>c. heap tick_world 0 = Some c \<and> late_at 10 (clock tick_os (kst tick_world)) c"
    by (auto simp: w cp_inv_def get_pool_def tbl_ok_def tbl_find_def conn_inv_def tick_start_def late_at_def
        clock_def tick_os_def reply_of_def split: if_splits)
qed

lemma heartbeat_removes_late_witness:
  "\<exists>w' c. heartbeat_round tick_os tick_world = (Inr (), w') \<and> heap tick_world 0 = Some c \<and>
     tbl_find (get_pool w') 7 = None \<and> heap w' 0 = Some (closed_conn c)"
proof -
  obtain c where c: "heap tick_world 0 = Some c" "late_at 10 (clock tick_os (kst tick_world)) c"
    using tick_world_eval(6) by blast
  obtain w' where "heartbeat_round tick_os tick_world = (Inr (), w')"
    "tbl_find (get_pool w') 7 = None" "heap w' 0 = Some (closed_conn c)"
    using heartbeat_removes_late [OF tick_world_eval(3,2,1)] tick_world_eval(4,5) c by auto
  with c show ?thesis by blast
qed

text \<open>
  C11: \<open>Shutdown\<close> of a running pool, in whatever order the table is iterated, empties the
  table, stops the heartbeat check, leaves every pooled connection \<open>CLOSED\<close>, and calls
  \<open>close(fd)\<close> exactly once for each pooled connection that still was open, and for no other
  descriptor.
\<close>

theorem Shutdown_closes_all:
  assumes "cp_inv w" "iter_ok os" "cp_running (cpool w)" "fd \<noteq> - 1"
  shows "\<exists>w'. ConnectionPool_Shutdown os w = (Inr (), w') \<and> get_pool w' = [] \<and>
    \<not> cp_running (cpool w') \<and> \<not> heartbeat_running (cpool w') \<and>
    (\<forall>p \<in> set (get_pool w). \<exists>c. heap w' (snd p) = Some c \<and> conn_state c = CLOSED) \<and>
    closes fd w' = closes fd w +
      (if \<exists>a c. tbl_find (get_pool w) fd = Some a \<and> heap w a = Some c \<and> conn_state c \<noteq> CLOSED \<and> conn_fd c = fd
       then 1 else 0)"
proof -
  let ?t = "os_iter os (get_pool w)" and ?f = "\<lambda>a. the (heap w a)"
  note iter = iter_table [OF assms(2), of "get_pool w"]
  have live: "\<exists>c. heap w (snd p) = Some c \<and> (conn_fd c = fst p \<or> conn_fd c = - 1)" if "p \<in> set (get_pool w)" for p
    using assms(1) that by (auto simp: cp_inv_def)
  have dist: "distinct (map fst (get_pool w))" using assms(1) by (simp add: cp_inv_def tbl_ok_def)
  have "distinct (map fst ?t)" "\<forall>p \<in> set ?t. conn_fd (?f (snd p)) = fst p \<or> conn_fd (?f (snd p)) = - 1"
    using dist iter live by fastforce+
  note count = count_closes [OF this assms(4)]
  have entry: "(fd, a) \<in> set (get_pool w) \<longleftrightarrow> tbl_find (get_pool w) fd = Some a" for a
    using dist by (simp add: tbl_find_def)
  have "(\<exists>a. (fd, a) \<in> set ?t \<and> conn_state (?f a) \<noteq> CLOSED \<and> conn_fd (?f a) = fd) \<longleftrightarrow>
      (\<exists>a c. tbl_find (get_pool w) fd = Some a \<and> heap w a = Some c \<and> conn_state c \<noteq> CLOSED \<and> conn_fd c = fd)"
    (is "?L \<longleftrightarrow> ?R")
  proof
    assume ?L
    then obtain a where a: "(fd, a) \<in> set (get_pool w)" "conn_state (?f a) \<noteq> CLOSED" "conn_fd (?f a) = fd"
      using iter(1) by auto
    moreover obtain c where "heap w a = Some c" using live [OF a(1)] by auto
    ultimately show ?R using entry by auto
  next
    assume ?R
    then show ?L using entry iter(1) by auto
  qed
  note count = count [unfolded this]
  obtain w' where w': "ConnectionPool_Shutdown os w = (Inr (), w')" "get_pool w' = []"
    "\<not> cp_running (cpool w')" "\<not> heartbeat_running (cpool w')"
    "heap w' = (\<lambda>a. if a \<in> snd ` set (get_pool w) then map_option closed_conn (heap w a) else heap w a)"
    "calls w' = calls w @ concat (map (\<lambda>p. close_calls (?f (snd p))) ?t)"
    by (rule Shutdown_spec [OF assms(1-3)]) blast
  have "\<exists>c. heap w' (snd p) = Some c \<and> conn_state c = CLOSED" if "p \<in> set (get_pool w)" for p
    using live [OF that] imageI [OF that, of snd] by (auto simp: w'(5))
  moreover have "closes fd w' = closes fd w +
      (if \<exists>a c. tbl_find (get_pool w) fd = Some a \<and> heap w a = Some c \<and> conn_state c \<noteq> CLOSED \<and> conn_fd c = fd
       then 1 else 0)"
    unfolding closes_def w'(6) count_list_append count by (rule refl)
  ultimately show ?thesis using w'(1-4) by blast
qed

lemma Shutdown_closes_all_witness:
  "\<exists>w'. ConnectionPool_Shutdown script_os (demo_pooled []) = (Inr (), w') \<and> get_pool w' = [] \<and>
     closes 7 w' = closes 7 (demo_pooled []) + 1"
  using Shutdown_closes_all [OF demo_pooled_inv(1) script_call_ok(4) demo_pooled_inv(4), of 7 "[]"]
  by (auto simp: demo_pooled_inv tbl_find_def demo_conn_inv)

end
