(* ===== verification/Net_EventLoop.thy ===== *)
theory Net_EventLoop
  imports Net_Epoll Conn_Pool
begin

text \<open>
  \<open>net::EventLoop\<close> (\<open>src/net/event_loop.h\<close>, \<open>src/net/event_loop.cpp\<close>): a reactor thread. It
  waits for events and echoes the bytes of its connections. The descriptors are registered
  with \<open>EPOLLONESHOT\<close>, so that each handler has to register its descriptor again.
\<close>

unbundle bit_operations_syntax

section \<open>State and operations\<close>

record EventLoop =
  el_epoll :: Epoll
  el_running :: bool
  thread_id :: nat
  is_main_reactor :: bool
  wakeup_fd :: int

text \<open>
  The constructor and the thread function take the id of the calling thread. When \<open>AddFd\<close>
  throws, the \<open>Epoll\<close> object is destroyed and the \<open>eventfd\<close> stays open.
\<close>

definition EventLoop_new :: "'k os \<Rightarrow> nat \<Rightarrow> (('k, 'z) sysw_scheme, EventLoop) prog" where
  "EventLoop_new os this_thread = bnd (Epoll_new os 102400) (\<lambda>ep.
     on_throw
       (bnd (syscall os Sys_eventfd) (\<lambda>r.
        andthen (doif (rp_ret r \<noteq> - 1) (Epoll_AddFd os ep (rp_ret r) EPOLLIN))
       (andthen (LOG DEBUG (''EventLoop created in thread: '' @ to_string (int (os_thread_hash os this_thread))))
          (ret \<lparr>el_epoll = ep, el_running = False, thread_id = this_thread, is_main_reactor = False,
                wakeup_fd = rp_ret r\<rparr>))))
       (\<lambda>w. snd (Epoll_delete os ep w)))"

definition EventLoop_Stop :: "'k os \<Rightarrow> (EventLoop \<times> ('k, 'z) sysw_scheme, unit) prog" where
  "EventLoop_Stop os = andthen (modify (\<lambda>(el, w). (el\<lparr>el_running := False\<rparr>, w)))
     (bnd (gets fst) (\<lambda>el.
        if wakeup_fd el \<noteq> - 1
        then bnd (on_snd (syscall os (Sys_write_eventfd (wakeup_fd el)))) (\<lambda>_. ret ())
        else ret ()))"

text \<open>The destructor: \<open>Stop\<close>, and then the \<open>Epoll\<close> member is destroyed.\<close>

definition EventLoop_delete :: "'k os \<Rightarrow> (EventLoop \<times> ('k, 'z) sysw_scheme, unit) prog" where
  "EventLoop_delete os = andthen (EventLoop_Stop os)
     (bnd (gets fst) (\<lambda>el. on_snd (Epoll_delete os (el_epoll el))))"

definition EventLoop_IsInLoopThread :: "EventLoop \<Rightarrow> nat \<Rightarrow> bool" where
  "EventLoop_IsInLoopThread el this_thread = (this_thread = thread_id el)"

definition EventLoop_AddFd :: "'k os \<Rightarrow> EventLoop \<Rightarrow> int \<Rightarrow> 32 word \<Rightarrow> (('k, 'z) sysw_scheme, unit) prog" where
  "EventLoop_AddFd os el fd events = Epoll_AddFd os (el_epoll el) fd events"

definition EventLoop_ModifyFd :: "'k os \<Rightarrow> EventLoop \<Rightarrow> int \<Rightarrow> 32 word \<Rightarrow> (('k, 'z) sysw_scheme, unit) prog" where
  "EventLoop_ModifyFd os el fd events = Epoll_ModifyFd os (el_epoll el) fd events"

definition EventLoop_RemoveFd :: "'k os \<Rightarrow> EventLoop \<Rightarrow> int \<Rightarrow> (('k, 'z) sysw_scheme, unit) prog" where
  "EventLoop_RemoveFd os el fd = Epoll_RemoveFd os (el_epoll el) fd"

definition EventLoop_GetEpoll :: "EventLoop \<Rightarrow> Epoll" where
  "EventLoop_GetEpoll el = el_epoll el"

definition EventLoop_GetThreadId :: "EventLoop \<Rightarrow> nat" where
  "EventLoop_GetThreadId el = thread_id el"

definition EventLoop_SetMainReactor :: "bool \<Rightarrow> EventLoop \<Rightarrow> EventLoop" where
  "EventLoop_SetMainReactor is_main el = el\<lparr>is_main_reactor := is_main\<rparr>"

definition EventLoop_IsMainReactor :: "EventLoop \<Rightarrow> bool" where
  "EventLoop_IsMainReactor el = is_main_reactor el"

section \<open>The handlers\<close>

definition would_block :: "int \<Rightarrow> bool" where
  "would_block e \<longleftrightarrow> e = EAGAIN \<or> e = EWOULDBLOCK"

definition HandleError :: "'k os \<Rightarrow> EventLoop \<Rightarrow> int \<Rightarrow> (('k, 'z) world_scheme, unit) prog" where
  "HandleError os el fd = bnd (ConnectionPool_GetConnection fd) (\<lambda>conn.
     andthen (case conn of
         None \<Rightarrow> ret ()
       | Some a \<Rightarrow> bnd (deref a) (\<lambda>c. LOG INFO (''Closing connection: '' @ Connection_GetIp c @ '':'' @
             to_string (uint (Connection_GetPort c)) @ '', fd='' @ to_string fd)))
    (andthen (EventLoop_RemoveFd os el fd)
    (bnd (ConnectionPool_RemoveConnection os fd) (\<lambda>_. ret ()))))"

text \<open>
  The loop \<open>while ((ret = conn->Recv()) > 0) {}\<close>, with a bound on its rounds: it ends when the
  socket has no more data, at the end of the stream or on an error.
\<close>

fun recv_all :: "'k os \<Rightarrow> nat \<Rightarrow> (Connection \<times> ('k, 'z) sysw_scheme, int) prog" where
  "recv_all os 0 = throw Diverges"
| "recv_all os (Suc n) = bnd (Connection_Recv os) (\<lambda>r. if 0 < r then recv_all os n else ret r)"

text \<open>Registering the descriptor again, with the write event only when bytes are queued.\<close>

definition rearm :: "'k os \<Rightarrow> EventLoop \<Rightarrow> int \<Rightarrow> nat \<Rightarrow> (('k, 'z) world_scheme, unit) prog" where
  "rearm os el fd a = bnd (deref a) (\<lambda>c.
     if Connection_HasPendingData c
     then EventLoop_ModifyFd os el fd (EPOLLIN OR EPOLLOUT OR EPOLLET OR EPOLLONESHOT)
     else EventLoop_ModifyFd os el fd (EPOLLIN OR EPOLLET OR EPOLLONESHOT))"

text \<open>The part of \<open>HandleRead\<close> after the loop, when the socket is still good: echo and register again.\<close>

definition echo_back :: "'k os \<Rightarrow> EventLoop \<Rightarrow> int \<Rightarrow> nat \<Rightarrow> (('k, 'z) world_scheme, unit) prog" where
  "echo_back os el fd a = bnd (deref a) (\<lambda>c.
     let data_len = Connection_GetReadBufferSize c
     in if 0 < data_len
        then andthen (guard (data_len \<le> length (Connection_GetReadBuffer c)) ''memcpy from beyond read_buffer_'')
            (andthen (on_conn a (Connection_AppendWriteBuffer os (take data_len (Connection_GetReadBuffer c))))
            (andthen (on_conn a (Connection_ConsumeReadBuffer data_len))
            (bnd (on_conn a (Connection_Send os)) (\<lambda>send_ret.
             bnd (gets errno) (\<lambda>e.
               if send_ret < 0 \<and> \<not> would_block e then HandleError os el fd
               else rearm os el fd a)))))
        else rearm os el fd a)"

definition HandleRead :: "'k os \<Rightarrow> nat \<Rightarrow> EventLoop \<Rightarrow> int \<Rightarrow> (('k, 'z) world_scheme, unit) prog" where
  "HandleRead os n el fd = bnd (ConnectionPool_GetConnection fd) (\<lambda>conn. case conn of
       None \<Rightarrow> LOG WARN (''Connection not found for read: fd='' @ to_string fd)
     | Some a \<Rightarrow> bnd (on_conn a (recv_all os n)) (\<lambda>r.
         bnd (gets errno) (\<lambda>e.
         if r = 0
         then bnd (deref a) (\<lambda>c.
           andthen (LOG INFO (''Client closed: '' @ Connection_GetIp c @ '':'' @ to_string (uint (Connection_GetPort c))))
             (HandleError os el fd))
         else if r < 0 \<and> \<not> would_block e
         then andthen (LOG ERROR (''Recv error: '' @ os_strerror os e)) (HandleError os el fd)
         else echo_back os el fd a)))"

definition HandleWrite :: "'k os \<Rightarrow> EventLoop \<Rightarrow> int \<Rightarrow> (('k, 'z) world_scheme, unit) prog" where
  "HandleWrite os el fd = bnd (ConnectionPool_GetConnection fd) (\<lambda>conn. case conn of
       None \<Rightarrow> LOG WARN (''Connection not found for write: fd='' @ to_string fd)
     | Some a \<Rightarrow> bnd (on_conn a (Connection_Send os)) (\<lambda>send_len.
         if send_len < 0
         then bnd (gets errno) (\<lambda>e.
           doif (\<not> would_block e)
             (andthen (LOG ERROR (''Send error: '' @ os_strerror os e)) (HandleError os el fd)))
         else andthen (on_conn a (Connection_UpdateHeartbeat os))
             (bnd (deref a) (\<lambda>c.
                let events = EPOLLIN OR EPOLLET OR EPOLLONESHOT
                in EventLoop_ModifyFd os el fd
                     (if Connection_HasPendingData c then events OR EPOLLOUT else events)))))"

text \<open>
  \<open>HandleEvents\<close>: the ready events in order. An index outside of the array is undefined
  behaviour.
\<close>

definition handle_event :: "'k os \<Rightarrow> nat \<Rightarrow> EventLoop \<Rightarrow> epoll_event \<Rightarrow> (('k, 'z) world_scheme, unit) prog" where
  "handle_event os n el event =
     (if ev_events event AND EPOLLERR \<noteq> 0 \<or> ev_events event AND EPOLLHUP \<noteq> 0 then HandleError os el (ev_fd event)
      else if ev_events event AND EPOLLIN \<noteq> 0
      then doif (\<not> EventLoop_IsMainReactor el) (HandleRead os n el (ev_fd event))
      else if ev_events event AND EPOLLOUT \<noteq> 0
      then doif (\<not> EventLoop_IsMainReactor el) (HandleWrite os el (ev_fd event))
      else ret ())"

fun handle_from :: "'k os \<Rightarrow> nat \<Rightarrow> EventLoop \<Rightarrow> nat list \<Rightarrow> (('k, 'z) world_scheme, unit) prog" where
  "handle_from os n el [] = ret ()"
| "handle_from os n el (i # is) =
     (if length (Epoll_GetEvents (el_epoll el)) \<le> i then throw (Undefined_behaviour ''event index'')
      else andthen (handle_event os n el (Epoll_GetEvents (el_epoll el) ! i)) (handle_from os n el is))"

definition HandleEvents :: "'k os \<Rightarrow> nat \<Rightarrow> EventLoop \<Rightarrow> (('k, 'z) world_scheme, unit) prog" where
  "HandleEvents os n el = handle_from os n el [0..<nat (Epoll_GetEventCount (el_epoll el))]"

section \<open>The loop\<close>

text \<open>
  The body of the loop: the result says whether the loop goes on. \<open>Wait\<close> returns a negative
  number only by an exception, so that the test after it is never true.
\<close>

definition on_epoll :: "(Epoll \<times> ('k, 'z) sysw_scheme, 'a) prog \<Rightarrow> (EventLoop \<times> ('k, 'z) sysw_scheme, 'a) prog" where
  "on_epoll m = (\<lambda>(el, w). case m (el_epoll el, w) of (r, (ep, w')) \<Rightarrow> (r, (el\<lparr>el_epoll := ep\<rparr>, w')))"

definition loop_round :: "'k os \<Rightarrow> nat \<Rightarrow> (EventLoop \<times> ('k, 'z) world_scheme, bool) prog" where
  "loop_round os n = bnd (on_epoll (Epoll_Wait os (- 1))) (\<lambda>num_events.
     bnd (on_snd (gets errno)) (\<lambda>e.
     if num_events < 0
     then (if e = EINTR then ret True
           else andthen (on_snd (LOG ERROR (''Epoll wait error: '' @ os_strerror os e))) (ret False))
     else bnd (gets fst) (\<lambda>el. andthen (on_snd (HandleEvents os n el)) (ret True))))"

text \<open>
  \<open>Loop\<close>: the list has what the other threads do to the loop object and the state before
  each test of \<open>running_\<close> (such as \<open>Stop\<close>); it ends while the loop still runs.
\<close>

fun loop_while :: "'k os \<Rightarrow> nat \<Rightarrow> (EventLoop \<times> ('k, 'z) world_scheme \<Rightarrow> EventLoop \<times> ('k, 'z) world_scheme) list \<Rightarrow>
    (EventLoop \<times> ('k, 'z) world_scheme, unit) prog" where
  "loop_while os n [] = ret ()"
| "loop_while os n (others # rest) = andthen (modify others) (bnd (gets fst) (\<lambda>el.
     let bye = on_snd (LOG INFO (''EventLoop stopped in thread: '' @ to_string (int (os_thread_hash os (thread_id el)))))
     in if el_running el
        then bnd (loop_round os n) (\<lambda>go. if go then loop_while os n rest else bye)
        else bye))"

definition EventLoop_Loop :: "'k os \<Rightarrow> nat \<Rightarrow> nat \<Rightarrow>
    (EventLoop \<times> ('k, 'z) world_scheme \<Rightarrow> EventLoop \<times> ('k, 'z) world_scheme) list \<Rightarrow>
    (EventLoop \<times> ('k, 'z) world_scheme, unit) prog" where
  "EventLoop_Loop os n this_thread others =
     andthen (modify (\<lambda>(el, w). (el\<lparr>thread_id := this_thread, el_running := True\<rparr>, w)))
    (andthen (on_snd (LOG INFO (''EventLoop started in thread: '' @ to_string (int (os_thread_hash os this_thread)))))
             (loop_while os n others))"

section \<open>The handlers keep the pool in order\<close>

lemma recv_all_keeps:
  assumes "recv_ok os"
  shows "conn_inv c \<Longrightarrow> conn_keeps (c, w) (snd (recv_all os n (c, w)))"
proof (induction n arbitrary: c w)
  case (Suc n)
  obtain r c1 w1 where R: "Connection_Recv os (c, w) = (r, (c1, w1))" by (metis surj_pair)
  have k: "conn_keeps (c, w) (c1, w1)" using Recv_keeps [OF assms Suc.prems, of w] R by simp
  then have "conn_inv c1" using Suc.prems by (simp add: conn_keeps_def)
  from conn_keeps_trans [OF k Suc.IH [OF this]] k R show ?case
    by (cases r) (simp_all add: prog_simps)
qed (simp add: prog_simps)

lemma keeps_epoll [keeps_intros]:
  "keeps (pool_ok m) (EventLoop_AddFd os el fd ev)" "keeps (pool_ok m) (EventLoop_ModifyFd os el fd ev)"
  "keeps (pool_ok m) (EventLoop_RemoveFd os el fd)"
  unfolding EventLoop_AddFd_def EventLoop_ModifyFd_def EventLoop_RemoveFd_def Epoll_AddFd_def Epoll_ModifyFd_def
    Epoll_RemoveFd_def Epoll_CheckError_def Let_def
  by (intro keeps_intros; simp)+

lemma HandleError_keeps [keeps_intros]: "keeps (pool_ok m) (HandleError os el fd)"
  unfolding HandleError_def by (intro keeps_intros)

lemma rearm_keeps [keeps_intros]: "keeps (pool_ok m) (rearm os el fd a)"
  unfolding rearm_def by (intro keeps_intros)

lemma keeps_conn_ops [keeps_intros]:
  "length bs < 2 ^ 63 \<Longrightarrow> keeps (pool_ok m) (on_conn a (Connection_AppendWriteBuffer os bs))"
  "keeps (pool_ok m) (on_conn a (Connection_ConsumeReadBuffer len))"
  "send_ok os \<Longrightarrow> keeps (pool_ok m) (on_conn a (Connection_Send os))"
  "recv_ok os \<Longrightarrow> keeps (pool_ok m) (on_conn a (recv_all os n))"
  "keeps (pool_ok m) (on_conn a (Connection_UpdateHeartbeat os))"
  by (rule keeps_on_conn, erule AppendWriteBuffer_keeps, simp)
     (rule keeps_on_conn, auto simp: prog_simps ConsumeReadBuffer_keeps Connection_UpdateHeartbeat_def closes_def
        Send_keeps recv_all_keeps intro!: conn_keepsI)+

lemma echo_back_keeps [keeps_intros]:
  assumes "send_ok os"
  shows "keeps (pool_ok m) (echo_back os el fd a)"
  unfolding echo_back_def Let_def Connection_GetReadBufferSize_def Connection_GetReadBuffer_def
  by (intro keeps_intros assms) (auto dest: conn_invD(2))

lemma handlers_keep [keeps_intros]:
  assumes "send_ok os"
  shows "recv_ok os \<Longrightarrow> keeps (pool_ok m) (HandleRead os n el fd)" "keeps (pool_ok m) (HandleWrite os el fd)"
  unfolding HandleRead_def HandleWrite_def Let_def by (intro keeps_intros assms; simp)+

lemma HandleEvents_keeps [keeps_intros]:
  assumes "recv_ok os" "send_ok os"
  shows "keeps (pool_ok m) (HandleEvents os n el)"
proof -
  have "keeps (pool_ok m) (handle_from os n el is)" for "is"
  proof (induction "is")
    case (Cons i "is")
    then show ?case
      unfolding handle_from.simps handle_event_def by (intro keeps_intros assms)
  qed (simp add: keeps_basic)
  then show ?thesis by (simp add: HandleEvents_def)
qed

section \<open>The end of a loop object\<close>

text \<open>\<open>Stop\<close> makes no \<open>close\<close>; the destructor closes the descriptor of the \<open>Epoll\<close> member.\<close>

lemma EventLoop_Stop_spec:
  assumes "snd (EventLoop_Stop os (el, w)) = (el', w')"
  shows "el_epoll el' = el_epoll el" "sys_only w w'" "closes fd w' = closes fd w"
  using assms by (auto simp: EventLoop_Stop_def prog_simps closes_def split: if_splits)

lemma Epoll_delete_spec:
  "sys_only w (snd (Epoll_delete os ep w))"
  "fd \<noteq> - 1 \<Longrightarrow> closes fd (snd (Epoll_delete os ep w)) = closes fd w + (if epoll_fd ep = fd then 1 else 0)"
  by (auto simp: Epoll_delete_def prog_simps closes_def)

lemma EventLoop_delete_spec:
  "sys_only w (snd (snd (EventLoop_delete os (el, w))))"
  "fd \<noteq> - 1 \<Longrightarrow> closes fd (snd (snd (EventLoop_delete os (el, w)))) =
     closes fd w + (if epoll_fd (el_epoll el) = fd then 1 else 0)"
proof -
  have "fst (EventLoop_Stop os (el, w)) = Inr ()" by (simp add: EventLoop_Stop_def prog_simps)
  then obtain el1 w1 where 1: "EventLoop_Stop os (el, w) = (Inr (), (el1, w1))" by (metis prod.collapse)
  then have "snd (EventLoop_Stop os (el, w)) = (el1, w1)" by simp
  note st = EventLoop_Stop_spec [OF this]
  have eq: "snd (snd (EventLoop_delete os (el, w))) = snd (Epoll_delete os (el_epoll el) w1)"
    by (simp add: EventLoop_delete_def prog_simps 1 st(1) split: prod.split)
  show "sys_only w (snd (snd (EventLoop_delete os (el, w))))"
    unfolding eq by (rule sys_only_trans [OF st(2) Epoll_delete_spec(1)])
  show "fd \<noteq> - 1 \<Longrightarrow> closes fd (snd (snd (EventLoop_delete os (el, w)))) =
     closes fd w + (if epoll_fd (el_epoll el) = fd then 1 else 0)"
    unfolding eq by (simp add: Epoll_delete_spec(2) st(3))
qed

section \<open>The receive loop\<close>

text \<open>The bytes that the kernel delivers during the loop.\<close>

fun arrived :: "'k os \<Rightarrow> nat \<Rightarrow> Connection \<times> ('k, 'z) sysw_scheme \<Rightarrow> byte list" where
  "arrived os 0 cw = []"
| "arrived os (Suc n) (c, w) =
     (let r = fst (os_call os (kst w) (Sys_recv (conn_fd c) (recv_size c)))
      in if 0 < rp_ret r then rp_bytes r @ arrived os n (snd (Connection_Recv os (c, w))) else [])"

lemma would_block_EAGAIN: "would_block e \<longleftrightarrow> e = EAGAIN"
  by (simp add: would_block_def EAGAIN_def EWOULDBLOCK_def)

text \<open>How the loop ends, and what it has received.\<close>

lemma recv_all_spec:
  assumes "recv_ok os"
  shows "conn_inv c \<Longrightarrow> conn_state c \<noteq> CLOSED \<Longrightarrow> recv_all os n (c, w) = (Inr r, (c', w')) \<Longrightarrow>
    r \<le> 0 \<and> conn_inv c' \<and> unread c' = unread c @ arrived os n (c, w) \<and> unsent c' = unsent c \<and>
    conn_fd c' = conn_fd c \<and> sys_only w w' \<and> closes fd w' = closes fd w \<and>
    (\<forall>b. Sys_send fd b \<notin> set (drop (length (calls w)) (calls w'))) \<and>
    conn_state c' = (if r < 0 \<and> errno w' = EAGAIN then conn_state c else CLOSED)"
proof (induction n arbitrary: c w)
  case 0
  then show ?case by (simp add: prog_simps)
next
  case (Suc n)
  obtain res c1 w1 where R: "Connection_Recv os (c, w) = (res, (c1, w1))" by (metis surj_pair)
  from assms Suc.prems(1) R show ?case
  proof (cases rule: Recv_cases)
    case closed
    then show ?thesis using Suc.prems(2) by simp
  next
    case limit
    then show ?thesis using Suc.prems(3) R by (simp add: prog_simps)
  next
    case (data rp k t k')
    have room: "read_room (read_grown c) (length (rp_bytes rp))"
      using can_recvD(5) [OF data(1)] recv_okD(2,3) [OF assms data(2)] data(3) by simp
    note st = after_received_spec [OF can_recvD(2) [OF data(1)] room]
    have c1: "conn_inv c1" "unread c1 = unread c @ rp_bytes rp" "unsent c1 = unsent c" "conn_fd c1 = conn_fd c"
      "conn_state c1 = conn_state c"
      using data(6) st read_grown_spec [OF Suc.prems(1)] by simp_all
    have rest: "recv_all os n (c1, w1) = (Inr r, (c', w'))"
      using Suc.prems(3) R data(3,5) by (simp add: prog_simps)
    have so: "sys_only w w1" and cl: "calls w1 = calls w @ [Sys_recv (conn_fd c) (recv_size c)]"
      using data(7) by simp_all
    note ih = Suc.IH [OF c1(1) _ rest]
    have ar: "arrived os (Suc n) (c, w) = rp_bytes rp @ arrived os n (c1, w1)"
      using data(2,3) R by simp
    obtain cs where cs: "calls w' = calls w1 @ cs"
      using ih c1(5) Suc.prems(2) by (auto simp: sys_only_def)
    show ?thesis
      using ih c1 Suc.prems(2) ar sys_only_trans [OF so] cl cs by (auto simp: closes_def)
  next
    case (eof rp k)
    then show ?thesis
      using Suc.prems R can_recvD [OF eof(1)] read_grown_spec [OF Suc.prems(1)]
      by (auto simp: prog_simps closes_def)
  next
    case (again rp k)
    then show ?thesis
      using Suc.prems R can_recvD [OF again(1)] read_grown_spec [OF Suc.prems(1)]
      by (auto simp: prog_simps closes_def EAGAIN_def EWOULDBLOCK_def)
  next
    case (error rp k)
    then show ?thesis
      using Suc.prems R can_recvD [OF error(1)] read_grown_spec [OF Suc.prems(1)]
      by (auto simp: prog_simps closes_def)
  qed
qed

text \<open>
  A bound on the rounds: \<open>pend\<close> counts the deliveries that the kernel still has; every
  successful \<open>recv\<close> uses one up.
\<close>

definition drains :: "'k os \<Rightarrow> ('k \<Rightarrow> nat) \<Rightarrow> bool" where
  "drains os pend \<longleftrightarrow>
     (\<forall>k fd n. 0 < rp_ret (fst (os_call os k (Sys_recv fd n))) \<longrightarrow> pend (snd (os_call os k (Sys_recv fd n))) < pend k) \<and>
     (\<forall>k. pend (snd (os_call os k Sys_clock)) \<le> pend k)"

lemma recv_all_ends:
  assumes "recv_ok os" "drains os pend"
  shows "conn_inv c \<Longrightarrow> pend (kst w) < n \<Longrightarrow> fst (recv_all os n (c, w)) \<noteq> Inl Diverges"
proof (induction n arbitrary: c w)
  case (Suc n)
  obtain res c1 w1 where R: "Connection_Recv os (c, w) = (res, (c1, w1))" by (metis surj_pair)
  have inv: "conn_inv c1" using Recv_keeps [OF assms(1) Suc.prems(1), of w] R Suc.prems(1) by (simp add: conn_keeps_def)
  from assms(1) Suc.prems(1) R show ?case
  proof (cases rule: Recv_cases)
    case (data rp k t k')
    have "pend k < pend (kst w)" "pend k' \<le> pend k"
      using assms(2) data(2,3,4) unfolding drains_def by (metis fst_conv snd_conv)+
    then have "pend (kst w1) < n" using data(7) Suc.prems(2) by simp
    from Suc.IH [OF inv this] show ?thesis using R data(3,5) by (simp add: prog_simps)
  qed (use R in \<open>simp_all add: prog_simps resize_error_def\<close>)
qed simp

section \<open>Effects of the handlers\<close>

lemma epoll_ctl_effect:
  "sys_only w (snd (EventLoop_ModifyFd os el fd ev w))"
  "calls (snd (EventLoop_ModifyFd os el fd ev w)) = calls w @ [Sys_epoll_ctl (epoll_fd (el_epoll el)) EPOLL_CTL_MOD fd ev]"
  "sys_only w (snd (EventLoop_RemoveFd os el fd w))"
  "calls (snd (EventLoop_RemoveFd os el fd w)) = calls w @ [Sys_epoll_ctl (epoll_fd (el_epoll el)) EPOLL_CTL_DEL fd 0]"
  "0 \<le> rp_ret (fst (os_call os (kst w) (Sys_epoll_ctl (epoll_fd (el_epoll el)) EPOLL_CTL_DEL fd 0))) \<Longrightarrow>
     fst (EventLoop_RemoveFd os el fd w) = Inr ()"
  by (auto simp: EventLoop_ModifyFd_def EventLoop_RemoveFd_def Epoll_ModifyFd_def Epoll_RemoveFd_def Epoll_CheckError_def
      prog_simps Let_def split: sum.splits prod.splits)

text \<open>
  \<open>HandleError\<close> on a pooled connection. When \<open>epoll_ctl\<close> fails, its exception leaves the
  connection in the pool.
\<close>

lemma HandleError_effect:
  assumes "cp_inv w" "tbl_find (get_pool w) fd = Some a" "heap w a = Some c"
  obtains (removed) w' where "HandleError os el fd w = (Inr (), w')" "cp_inv w'"
      "get_pool w' = tbl_erase fd (get_pool w)" "heap w' = (heap w)(a := Some (closed_conn c))"
      "calls w' = calls w @ Sys_epoll_ctl (epoll_fd (el_epoll el)) EPOLL_CTL_DEL fd 0 # close_calls c"
  | (failed) e w' where "HandleError os el fd w = (Inl e, w')" "sys_only w w'"
      "rp_ret (fst (os_call os (kst w) (Sys_epoll_ctl (epoll_fd (el_epoll el)) EPOLL_CTL_DEL fd 0))) < 0"
      "calls w' = calls w @ [Sys_epoll_ctl (epoll_fd (el_epoll el)) EPOLL_CTL_DEL fd 0]"
proof -
  let ?log = "''Closing connection: '' @ Connection_GetIp c @ '':'' @ to_string (uint (Connection_GetPort c)) @ '', fd='' @ to_string fd"
  let ?w0 = "w\<lparr>logs := logs w @ [(INFO, ?log)]\<rparr>"
  obtain r w1 where R: "EventLoop_RemoveFd os el fd ?w0 = (r, w1)" by force
  note eff = epoll_ctl_effect(3-5) [where w = ?w0 and os = os and el = el and fd = fd, unfolded R]
  have so: "sys_only w w1" using eff(1) sys_only_trans [OF sys_only_steps(4)] by simp
  show ?thesis
  proof (cases r)
    case (Inl e)
    then have "HandleError os el fd w = (Inl e, w1)"
      using R assms(2,3) by (simp add: HandleError_def ConnectionPool_GetConnection_def prog_simps)
    moreover have "rp_ret (fst (os_call os (kst w) (Sys_epoll_ctl (epoll_fd (el_epoll el)) EPOLL_CTL_DEL fd 0))) < 0"
      using eff(3) Inl by (cases "0 \<le> rp_ret (fst (os_call os (kst w) (Sys_epoll_ctl (epoll_fd (el_epoll el)) EPOLL_CTL_DEL fd 0)))") simp_all
    ultimately show ?thesis using failed so eff(2) by simp
  next
    case (Inr u)
    have inv: "cp_inv w1" by (rule cp_inv_sys_only [OF assms(1) so])
    have "tbl_find (get_pool w1) fd = Some a" "heap w1 a = Some c" using so assms(2,3) by simp_all
    then obtain w' where w': "ConnectionPool_RemoveConnection os fd w1 = (Inr True, w')" "cp_inv w'"
      "get_pool w' = tbl_erase fd (get_pool w1)" "heap w' = (heap w1)(a := Some (closed_conn c))"
      "calls w' = calls w1 @ close_calls c"
      by (rule RemoveConnection_found [OF inv]) blast
    have "HandleError os el fd w = (Inr (), w')"
      using R Inr w'(1) assms(2,3) by (simp add: HandleError_def ConnectionPool_GetConnection_def prog_simps)
    then show ?thesis using removed w' so eff(2) by simp
  qed
qed

lemma rearm_effect:
  assumes "conn_inv c" "heap w a = Some c"
  shows "sys_only w (snd (rearm os el fd a w))"
    "calls (snd (rearm os el fd a w)) = calls w @ [Sys_epoll_ctl (epoll_fd (el_epoll el)) EPOLL_CTL_MOD fd
       (if unsent c = [] then EPOLLIN OR EPOLLET OR EPOLLONESHOT else EPOLLIN OR EPOLLOUT OR EPOLLET OR EPOLLONESHOT)]"
proof -
  have "0 < write_idx c \<longleftrightarrow> unsent c \<noteq> []" using conn_invD(7) [OF assms(1)] by (metis length_greater_0_conv)
  then show "sys_only w (snd (rearm os el fd a w))"
    "calls (snd (rearm os el fd a w)) = calls w @ [Sys_epoll_ctl (epoll_fd (el_epoll el)) EPOLL_CTL_MOD fd
       (if unsent c = [] then EPOLLIN OR EPOLLET OR EPOLLONESHOT else EPOLLIN OR EPOLLOUT OR EPOLLET OR EPOLLONESHOT)]"
    using assms(2) by (simp_all add: rearm_def prog_simps Connection_HasPendingData_def epoll_ctl_effect)
qed

text \<open>The bytes move from the read buffer to the write buffer, when there is memory for them.\<close>

definition move_prog :: "'k os \<Rightarrow> nat \<Rightarrow> Connection \<Rightarrow> (('k, 'z) world_scheme, unit) prog" where
  "move_prog os a c = andthen (on_conn a (Connection_AppendWriteBuffer os (unread c)))
     (on_conn a (Connection_ConsumeReadBuffer (read_idx c)))"

lemma echo_back_eval:
  assumes "conn_inv c" "heap w a = Some c" "unread c \<noteq> []"
  shows "echo_back os el fd a w = andthen (move_prog os a c) (bnd (on_conn a (Connection_Send os)) (\<lambda>send_ret.
     bnd (gets errno) (\<lambda>e. if send_ret < 0 \<and> \<not> would_block e then HandleError os el fd else rearm os el fd a))) w"
proof -
  have "0 < read_idx c" using assms(3) by (cases "read_idx c = 0") (simp_all add: unread_def)
  then show ?thesis
    using assms(2) conn_invD(1) [OF assms(1)]
    by (simp add: echo_back_def move_prog_def bnd_eval andthen_eval deref_eval guard_eval Let_def unread_def
        Connection_GetReadBufferSize_def Connection_GetReadBuffer_def split: prod.split sum.split)
qed

lemma move_bytes:
  fixes w :: "('k, 'z) world_scheme"
  assumes "cp_inv w" "heap w a = Some c" "grown_size (length (unread c)) c < 2 ^ 63"
    "write_granted os (kst w) (length (unread c)) c"
  obtains w2 c2 where "move_prog os a c w = (Inr (), w2)"
    "cp_inv w2" "cpool w2 = cpool w" "heap w2 = (heap w)(a := Some c2)" "calls w2 = calls w" "errno w2 = errno w"
    "kst w2 = kst w" "unread c2 = []" "unsent c2 = unsent c @ unread c" "conn_fd c2 = conn_fd c"
    "conn_state c2 = conn_state c" "conn_inv c2"
proof -
  have ci: "conn_inv c" using assms(1,2) by (auto simp: cp_inv_def)
  have len: "length (unread c) < 2 ^ 63" using conn_invD(5,8) [OF ci] by simp
  note ap = append_bytes_spec [OF ci len assms(3)]
  let ?c1 = "append_bytes (unread c) c"
  let ?c2 = "after_consumed (read_idx c) ?c1"
  let ?ap = "Connection_AppendWriteBuffer os (unread c)" and ?co = "Connection_ConsumeReadBuffer (read_idx c)"
  obtain wl where A: "?ap (c, w) = (Inr (), (?c1, wl))"
    and wl: "calls wl = calls w" "errno wl = errno w" "kst wl = kst w"
    using AppendWriteBuffer_eval [OF ci len, of os w] assms(3,4) by simp
  have "conn_keeps (c, w) (?c1, wl)" using AppendWriteBuffer_keeps(1) [OF ci len, of w os] A by simp
  then obtain w1 where w1: "on_conn a ?ap w = (Inr (), w1)" "cp_inv w1"
    "cpool w1 = cpool w" "heap w1 = (heap w)(a := Some ?c1)" "calls w1 = calls w" "errno w1 = errno w" "kst w1 = kst w"
    by (rule on_conn_step [where m = ?ap, OF assms(1,2) A]) (use wl in simp)
  have h1: "heap w1 a = Some ?c1" using w1(4) by simp
  have M: "?co (?c1, w1) = (Inr (), (?c2, w1))" by (rule ConsumeReadBuffer_eval [OF ap(1)])
  have "conn_keeps (?c1, w1) (?c2, w1)" by (rule conn_keepsI) (simp_all add: after_consumed_spec)
  then obtain w2 where w2: "on_conn a ?co w1 = (Inr (), w2)" "cp_inv w2" "cpool w2 = cpool w1"
    "heap w2 = (heap w1)(a := Some ?c2)" "calls w2 = calls w1" "errno w2 = errno w1" "kst w2 = kst w1"
    by (rule on_conn_step [where m = ?co, OF w1(2) h1 M]) blast
  show ?thesis
    by (rule that [of w2 ?c2])
      (use w1 w2 ap after_consumed_spec [OF ap(1)] conn_invD(8) [OF ci] in \<open>simp_all add: move_prog_def andthen_eval\<close>)
qed

lemma move_bytes_no_memory:
  fixes w :: "('k, 'z) world_scheme"
  assumes "cp_inv w" "heap w a = Some c" "grown_size (length (unread c)) c < 2 ^ 63"
    "\<not> write_granted os (kst w) (length (unread c)) c"
  obtains w2 where "move_prog os a c w = (Inl Bad_alloc, w2)" "heap w2 = heap w" "calls w2 = calls w"
proof -
  have ci: "conn_inv c" using assms(1,2) by (auto simp: cp_inv_def)
  have len: "length (unread c) < 2 ^ 63" using conn_invD(5,8) [OF ci] by simp
  have "Connection_AppendWriteBuffer os (unread c) (c, w) = (Inl Bad_alloc, (c, w))"
    using AppendWriteBuffer_eval [OF ci len, of os w] assms(3,4) by (simp add: resize_error_def)
  then have "move_prog os a c w = (Inl Bad_alloc, w\<lparr>heap := (heap w)(a := Some c)\<rparr>)"
    using assms(2) by (simp add: move_prog_def andthen_eval on_conn_eval)
  moreover have "(heap w)(a := Some c) = heap w" using assms(2) by (simp add: fun_upd_idem_iff)
  ultimately show ?thesis using that by simp
qed

text \<open>\<open>HandleRead\<close> after its receive loop.\<close>

lemma HandleRead_after_loop:
  assumes "recv_ok os" "cp_inv w" "tbl_find (get_pool w) fd = Some a" "heap w a = Some c"
    "recv_all os n (c, w) = (Inr r, (c1, w1))"
  obtains w2 where "cp_inv w2" "cpool w2 = cpool w" "heap w2 = (heap w)(a := Some c1)" "calls w2 = calls w1"
    "errno w2 = errno w1" "kst w2 = kst w1"
    "r = 0 \<Longrightarrow> HandleRead os n el fd w = HandleError os el fd
       (w2\<lparr>logs := logs w2 @ [(INFO, ''Client closed: '' @ conn_name c1)]\<rparr>)"
    "r < 0 \<Longrightarrow> errno w1 = EAGAIN \<Longrightarrow> HandleRead os n el fd w = echo_back os el fd a w2"
proof -
  have ci: "conn_inv c" using assms(2,4) by (auto simp: cp_inv_def)
  have "conn_keeps (c, w) (c1, w1)" using recv_all_keeps [OF assms(1) ci, of w n] assms(5) by simp
  then obtain w2 where w2: "on_conn a (recv_all os n) w = (Inr r, w2)" "cp_inv w2" "cpool w2 = cpool w"
    "heap w2 = (heap w)(a := Some c1)" "calls w2 = calls w1" "errno w2 = errno w1" "kst w2 = kst w1"
    by (rule on_conn_step [where m = "recv_all os n", OF assms(2,4,5)]) blast
  have "heap w2 a = Some c1" using w2(4) by simp
  then show ?thesis
    using that [OF w2(2-7)] w2(1) assms(3)
    by (simp add: HandleRead_def ConnectionPool_GetConnection_def bnd_eval gets_eval ret_eval andthen_eval LOG_eval
        deref_eval w2(6) would_block_EAGAIN conn_name_def Connection_GetIp_def Connection_GetPort_def)
qed

text \<open>Which call \<open>echo_back\<close> makes to send, and what it leaves behind.\<close>

lemma echo_back_effect:
  fixes w :: "('k, 'z) world_scheme"
  assumes "send_ok os" "cp_inv w" "tbl_find (get_pool w) fd = Some a" "heap w a = Some c"
    "conn_state c \<noteq> CLOSED" "grown_size (length (unread c)) c < 2 ^ 63" "unread c \<noteq> []"
    "write_granted os (kst w) (length (unread c)) c"
  shows "\<exists>c' cs r. heap (snd (echo_back os el fd a w)) a = Some c' \<and> unread c' = [] \<and>
     r = fst (os_call os (kst w) (Sys_send (conn_fd c) (unsent c @ unread c))) \<and>
     take (nat (rp_ret r)) (unsent c @ unread c) @ unsent c' = unsent c @ unread c \<and>
     calls (snd (echo_back os el fd a w)) = calls w @ Sys_send (conn_fd c) (unsent c @ unread c) # cs \<and>
     (if rp_ret r < 0 \<and> rp_errno r \<noteq> EAGAIN
      then cs = [Sys_epoll_ctl (epoll_fd (el_epoll el)) EPOLL_CTL_DEL fd 0] \<and> conn_state c' = CLOSED
      else cs = [Sys_epoll_ctl (epoll_fd (el_epoll el)) EPOLL_CTL_MOD fd
       (if unsent c' = [] then EPOLLIN OR EPOLLET OR EPOLLONESHOT else EPOLLIN OR EPOLLOUT OR EPOLLET OR EPOLLONESHOT)])"
proof -
  have ci: "conn_inv c" using assms(2,4) by (auto simp: cp_inv_def)
  obtain w2 c2 where mv: "move_prog os a c w = (Inr (), w2)"
    and w2: "cp_inv w2" "cpool w2 = cpool w" "heap w2 = (heap w)(a := Some c2)" "calls w2 = calls w"
      "errno w2 = errno w" "kst w2 = kst w"
    and c2: "unread c2 = []" "unsent c2 = unsent c @ unread c" "conn_fd c2 = conn_fd c" "conn_state c2 = conn_state c" "conn_inv c2"
    by (rule move_bytes [OF assms(2,4,6,8)]) blast
  obtain res c3 wl where S: "Connection_Send os (c2, w2) = (res, (c3, wl))" by (metis surj_pair)
  have st: "conn_state c2 \<noteq> CLOSED" using c2(4) assms(5) by simp
  define r where "r = fst (os_call os (kst w) (Sys_send (conn_fd c) (unsent c @ unread c)))"
  have sm: "res = Inr (rp_ret r)" "calls wl = calls w @ [Sys_send (conn_fd c) (unsent c @ unread c)]" "conn_inv c3"
    "unread c3 = []" "unsent c @ unread c = take (nat (rp_ret r)) (unsent c @ unread c) @ unsent c3"
    "conn_state c3 = (if 0 < rp_ret r \<or> rp_ret r < 0 \<and> rp_errno r = EAGAIN then conn_state c else CLOSED)"
    using Send_summary [OF assms(1) c2(5) st S] c2(1-4) w2(4,6) assms(7) by (auto simp: r_def)
  have er: "errno wl = rp_errno r" if "rp_ret r < 0"
    using assms(1) c2(5) S by (cases rule: Send_cases) (use that sm(1) c2 w2 assms(5,7) in \<open>auto simp: r_def\<close>)
  have "conn_keeps (c2, w2) (c3, wl)" using Send_keeps(1) [OF assms(1) c2(5), of w2] S by simp
  moreover have h2: "heap w2 a = Some c2" using w2(3) by simp
  ultimately obtain w3 where w3: "on_conn a (Connection_Send os) w2 = (res, w3)" "cp_inv w3" "cpool w3 = cpool w"
    "heap w3 a = Some c3" "calls w3 = calls wl" "errno w3 = errno wl"
    using on_conn_step [where m = "Connection_Send os", OF w2(1) h2 S] w2(2) by (metis fun_upd_same)
  have run: "echo_back os el fd a w = (if rp_ret r < 0 \<and> errno wl \<noteq> EAGAIN then HandleError os el fd w3 else rearm os el fd a w3)"
    using w3(1,6) sm(1) mv
    by (simp add: echo_back_eval [OF ci assms(4,7)] bnd_eval andthen_eval gets_eval would_block_EAGAIN)
  have find3: "tbl_find (get_pool w3) fd = Some a" using assms(3) w3(3) by (simp add: get_pool_def)
  show ?thesis
  proof (cases "rp_ret r < 0 \<and> rp_errno r \<noteq> EAGAIN")
    case True
    then have bad: "conn_state c3 = CLOSED" "echo_back os el fd a w = HandleError os el fd w3"
      using sm(6) run er by auto
    then have "closed_conn c3 = c3" "close_calls c3 = []" by (simp_all add: closed_conn_def close_calls_def)
    with w3(2) find3 w3(4) have "heap (snd (HandleError os el fd w3)) a = Some c3 \<and>
       calls (snd (HandleError os el fd w3)) = calls w3 @ [Sys_epoll_ctl (epoll_fd (el_epoll el)) EPOLL_CTL_DEL fd 0]"
      by (rule_tac HandleError_effect [of w3 fd a c3 os el]) simp_all
    then show ?thesis using True bad sm w3(5) by (intro exI [of _ c3]) (simp add: r_def)
  next
    case False
    then have ok: "echo_back os el fd a w = rearm os el fd a w3" using run er by auto
    show ?thesis
      using False rearm_effect [OF sm(3) w3(4), of os el fd] sm w3(4,5)
      by (intro exI [of _ c3]) (simp add: ok r_def)
  qed
qed

lemma ends_handlers [keeps_intros]:
  "ends (EventLoop_ModifyFd os el fd ev)" "ends (EventLoop_RemoveFd os el fd)" "ends (HandleError os el fd)"
  "ends (rearm os el fd a)" "ends (echo_back os el fd a)"
proof -
  show m: "ends (EventLoop_ModifyFd os el fd ev)" and r: "ends (EventLoop_RemoveFd os el fd)" for fd ev
    unfolding EventLoop_ModifyFd_def EventLoop_RemoveFd_def Epoll_ModifyFd_def Epoll_RemoveFd_def Epoll_CheckError_def Let_def
    by (intro keeps_intros; simp)+
  show h: "ends (HandleError os el fd)"
    unfolding HandleError_def by (intro keeps_intros m r)
  show a: "ends (rearm os el fd a)" unfolding rearm_def by (intro keeps_intros m)
  show "ends (echo_back os el fd a)" unfolding echo_back_def Let_def by (intro keeps_intros h a)
qed

lemma HandleRead_ends:
  assumes "recv_ok os" "drains os pend" "cp_inv w" "pend (kst w) < n"
  shows "fst (HandleRead os n el fd w) \<noteq> Inl Diverges"
proof (cases "tbl_find (get_pool w) fd")
  case None
  then show ?thesis by (simp add: HandleRead_def ConnectionPool_GetConnection_def prog_simps)
next
  case (Some a)
  obtain c where c: "heap w a = Some c" "conn_inv c" using cp_inv_entry(2) [OF assms(3) Some] by blast
  let ?rest = "\<lambda>r. bnd (gets errno) (\<lambda>e.
         if r = 0
         then bnd (deref a) (\<lambda>c.
           andthen (LOG INFO (''Client closed: '' @ Connection_GetIp c @ '':'' @ to_string (uint (Connection_GetPort c))))
             (HandleError os el fd))
         else if r < 0 \<and> \<not> would_block e
         then andthen (LOG ERROR (''Recv error: '' @ os_strerror os e)) (HandleError os el fd)
         else echo_back os el fd a)"
  have run: "HandleRead os n el fd w = bnd (on_conn a (recv_all os n)) ?rest w"
    using Some by (simp add: HandleRead_def ConnectionPool_GetConnection_def bnd_eval gets_eval ret_eval)
  have rest: "ends (?rest r)" for r by (intro keeps_intros)
  obtain x y where R: "recv_all os n (c, w) = (x, y)" by (metis surj_pair)
  then have "x \<noteq> Inl Diverges" using recv_all_ends [OF assms(1,2) c(2) assms(4)] by simp
  with R c(1) obtain x' y' where "on_conn a (recv_all os n) w = (x', y')" "x' \<noteq> Inl Diverges"
    by (cases y) (simp add: on_conn_eval)
  then show ?thesis
    unfolding run bnd_eval [of "on_conn a (recv_all os n)"] using endsD [OF rest] by (cases x') simp_all
qed

text \<open>\<open>HandleWrite\<close> up to the result of its send.\<close>

lemma HandleWrite_after_send:
  assumes "send_ok os" "cp_inv w" "tbl_find (get_pool w) fd = Some a" "heap w a = Some c"
    "Connection_Send os (c, w) = (Inr r, (c1, w1))"
  obtains w2 where "cp_inv w2" "cpool w2 = cpool w" "heap w2 = (heap w)(a := Some c1)" "calls w2 = calls w1"
    "kst w2 = kst w1" "r < 0 \<Longrightarrow> errno w1 = EAGAIN \<Longrightarrow> HandleWrite os el fd w = (Inr (), w2)"
    "0 \<le> r \<Longrightarrow> HandleWrite os el fd w = bnd (on_conn a (Connection_UpdateHeartbeat os)) (\<lambda>_. bnd (deref a) (\<lambda>c.
       EventLoop_ModifyFd os el fd (if Connection_HasPendingData c then (EPOLLIN OR EPOLLET OR EPOLLONESHOT) OR EPOLLOUT
         else EPOLLIN OR EPOLLET OR EPOLLONESHOT))) w2"
proof -
  have ci: "conn_inv c" using assms(2,4) by (auto simp: cp_inv_def)
  have "conn_keeps (c, w) (c1, w1)" using Send_keeps [OF assms(1) ci, of w] assms(5) by simp
  then obtain w2 where w2: "on_conn a (Connection_Send os) w = (Inr r, w2)" "cp_inv w2" "cpool w2 = cpool w"
    "heap w2 = (heap w)(a := Some c1)" "calls w2 = calls w1" "errno w2 = errno w1" "kst w2 = kst w1"
    by (rule on_conn_step [where m = "Connection_Send os", OF assms(2,4,5)]) blast
  show ?thesis
    by (rule that [OF w2(2-5,7)])
       (use w2(1,6) assms(3) in \<open>simp_all add: HandleWrite_def ConnectionPool_GetConnection_def bnd_eval gets_eval
          ret_eval andthen_def doif_def would_block_EAGAIN Let_def\<close>)
qed

lemma heartbeat_then_rearm:
  assumes "cp_inv w" "heap w a = Some c"
  shows "\<exists>w' t. heap w' a = Some (c\<lparr>last_heartbeat := t\<rparr>) \<and>
    snd (bnd (on_conn a (Connection_UpdateHeartbeat os)) (\<lambda>_. bnd (deref a) (\<lambda>c.
       EventLoop_ModifyFd os el fd (if Connection_HasPendingData c then ev1 else ev2))) w) = w' \<and>
    calls w' = calls w @ [Sys_epoll_ctl (epoll_fd (el_epoll el)) EPOLL_CTL_MOD fd (if unsent c = [] then ev2 else ev1)]"
proof -
  have ci: "conn_inv c" using assms by (auto simp: cp_inv_def)
  have "0 < write_idx c \<longleftrightarrow> unsent c \<noteq> []" using conn_invD(7) [OF ci] by (metis length_greater_0_conv)
  then show ?thesis
    using assms(2) by (simp add: bnd_eval on_conn_eval Connection_UpdateHeartbeat_def prog_simps deref_eval
        Connection_HasPendingData_def epoll_ctl_effect sys_only_world(1) [OF epoll_ctl_effect(1)])
       (blast intro: exI)
qed

section \<open>Waiting and dispatching\<close>

text \<open>The array of events has the size that the kernel is told.\<close>

definition el_ok :: "EventLoop \<Rightarrow> bool" where
  "el_ok el \<longleftrightarrow> length (ep_events (el_epoll el)) = nat (max_events (el_epoll el))"

text \<open>The loop object after a wait with the reply \<open>r\<close>.\<close>

definition after_wait :: "reply \<Rightarrow> EventLoop \<Rightarrow> EventLoop" where
  "after_wait r el = el\<lparr>el_epoll := (el_epoll el)\<lparr>event_count := rp_ret r,
     ep_events := (if 0 < rp_ret r then blit (ep_events (el_epoll el)) 0 (rp_events r) else ep_events (el_epoll el))\<rparr>\<rparr>"

definition wait_reply :: "'k os \<Rightarrow> EventLoop \<Rightarrow> ('k, 'z) sysw_scheme \<Rightarrow> reply" where
  "wait_reply os el w = fst (os_call os (kst w) (Sys_epoll_wait (epoll_fd (el_epoll el)) (max_events (el_epoll el)) (- 1)))"

lemma wait_reply_bounds:
  assumes "epoll_wait_ok os"
  shows "- 1 \<le> rp_ret (wait_reply os el w)" "rp_ret (wait_reply os el w) \<le> max 0 (max_events (el_epoll el))"
    "0 \<le> rp_ret (wait_reply os el w) \<Longrightarrow> rp_ret (wait_reply os el w) = int (length (rp_events (wait_reply os el w)))"
  using assms by (simp_all add: epoll_wait_ok_def wait_reply_def Let_def)

lemma after_wait_ok:
  assumes "epoll_wait_ok os" "el_ok el" "r = wait_reply os el w"
  shows "el_ok (after_wait r el)" "nat (rp_ret r) \<le> length (ep_events (el_epoll (after_wait r el)))"
    "0 \<le> rp_ret r \<Longrightarrow> map ((!) (ep_events (el_epoll (after_wait r el)))) [0..<nat (rp_ret r)] = rp_events r"
proof -
  note b = wait_reply_bounds [OF assms(1), of el w, folded assms(3)]
  have len: "length (rp_events r) \<le> length (ep_events (el_epoll el))" if "0 \<le> rp_ret r"
    using b(2) b(3) [OF that] that assms(2) by (simp add: el_ok_def)
  show ok: "el_ok (after_wait r el)"
    using assms(2) len by (simp add: el_ok_def after_wait_def length_blit)
  show "nat (rp_ret r) \<le> length (ep_events (el_epoll (after_wait r el)))"
    using ok b(2) by (simp add: el_ok_def after_wait_def)
  show "map ((!) (ep_events (el_epoll (after_wait r el)))) [0..<nat (rp_ret r)] = rp_events r" if r: "0 \<le> rp_ret r"
  proof (cases "rp_events r = []")
    case False
    then have "0 < rp_ret r" using b(3) [OF r] by simp
    moreover have "map ((!) (xs @ ys)) [0..<length xs] = xs" for xs ys :: "epoll_event list"
      by (rule nth_equalityI) (simp_all add: nth_append)
    ultimately show ?thesis using b(3) [OF r] by (simp add: after_wait_def blit_def)
  qed (use b(3) [OF r] in simp)
qed

lemma on_epoll_Wait:
  assumes "epoll_wait_ok os" "el_ok el" "r = wait_reply os el w"
  obtains w' where "sys_only w w'"
    "calls w' = calls w @ [Sys_epoll_wait (epoll_fd (el_epoll el)) (max_events (el_epoll el)) (- 1)]"
    "on_epoll (Epoll_Wait os (- 1)) (el, w) =
       (if 0 \<le> rp_ret r then Inr (rp_ret r) else if rp_errno r = EINTR then Inr 0
        else Inl (Runtime_error (''epoll_wait failed: '' @ os_strerror os (rp_errno r))), (after_wait r el, w'))"
proof -
  let ?x = "on_epoll (Epoll_Wait os (- 1)) (el, w)"
  have "length (rp_events r) \<le> length (ep_events (el_epoll el))" if "0 < rp_ret r"
    using wait_reply_bounds [OF assms(1), of el w, folded assms(3)] that assms(2) by (simp add: el_ok_def)
  then have "sys_only w (snd (snd ?x))"
    "calls (snd (snd ?x)) = calls w @ [Sys_epoll_wait (epoll_fd (el_epoll el)) (max_events (el_epoll el)) (- 1)]"
    "?x = (if 0 \<le> rp_ret r then Inr (rp_ret r) else if rp_errno r = EINTR then Inr 0
        else Inl (Runtime_error (''epoll_wait failed: '' @ os_strerror os (rp_errno r))), (after_wait r el, snd (snd ?x)))"
    by (simp_all add: on_epoll_def Epoll_Wait_def Epoll_CheckError_def prog_simps assms(3) wait_reply_def after_wait_def Let_def)
  then show ?thesis by (rule that)
qed

text \<open>The handlers of a list of events, one after the other.\<close>

fun handle_each :: "'k os \<Rightarrow> nat \<Rightarrow> EventLoop \<Rightarrow> epoll_event list \<Rightarrow> (('k, 'z) world_scheme, unit) prog" where
  "handle_each os n el [] = ret ()"
| "handle_each os n el (e # es) = andthen (handle_event os n el e) (handle_each os n el es)"

lemma handle_from_each:
  "\<forall>i \<in> set is. i < length (ep_events (el_epoll el)) \<Longrightarrow>
     handle_from os n el is = handle_each os n el (map ((!) (ep_events (el_epoll el))) is)"
  by (induction "is") (simp_all add: Epoll_GetEvents_def)

section \<open>Properties\<close>

text \<open>A loop object, for the witnesses.\<close>

definition demo_loop :: EventLoop where
  "demo_loop = \<lparr>el_epoll = \<lparr>epoll_fd = 3, max_events = 8, ep_events = replicate 8 \<lparr>ev_events = 0, ev_fd = 0\<rparr>, event_count = 0\<rparr>,
     el_running = True, thread_id = 1, is_main_reactor = False, wakeup_fd = 4\<rparr>"

lemma demo_recv:
  "read_grown demo_conn = demo_conn\<lparr>read_buffer := vec_resize [] 4096\<rparr>" "can_recv script_os k demo_conn" "recv_size demo_conn = 4096"
proof -
  show g: "read_grown demo_conn = demo_conn\<lparr>read_buffer := vec_resize [] 4096\<rparr>"
    by (simp add: read_grown_def demo_conn_def usz_add_def usz_sub_def usz_mul_def)
  show "can_recv script_os k demo_conn" "recv_size demo_conn = 4096"
    unfolding can_recv_def recv_size_def read_granted_def g by (simp_all add: demo_conn_inv buf_simps) (simp add: demo_conn_def)
qed

text \<open>
  The scripted kernel delivers two bytes, and then has no more; \<open>demo_mid\<close> is the connection
  after the loop.
\<close>

definition demo_script :: "reply list \<Rightarrow> reply list" where
  "demo_script rest = reply_of 2 0 [5, 6] # reply_of 0 0 [] # rest"

definition demo_mid :: Connection where
  "demo_mid = after_received [5, 6] 2 (demo_conn\<lparr>read_buffer := vec_resize [] 4096\<rparr>)"

lemma demo_mid_inv: "conn_inv demo_mid" "unread demo_mid = [5, 6]" "can_recv script_os k demo_mid" "recv_size demo_mid = 4094"
  "read_grown demo_mid = demo_mid" "conn_fd demo_mid = 7" "unsent demo_mid = [1, 2, 3]" "last_heartbeat demo_mid = 0"
  "conn_state demo_mid = CONNECTED"
proof -
  let ?c = "demo_conn\<lparr>read_buffer := vec_resize [] 4096\<rparr>"
  have c: "conn_inv ?c" "unread ?c = []" "read_room ?c (length [5, 6 :: byte])"
    using demo_conn_inv(1) by (simp_all add: conn_inv_def read_room_def buf_simps unread_def demo_conn_def)
  have "conn_inv demo_mid" "unread demo_mid = [5, 6]"
    using after_received_spec [OF c(1,3)] c(2) by (simp_all add: demo_mid_def numeral_2_eq_2)
  then show inv: "conn_inv demo_mid" "unread demo_mid = [5, 6]" by simp_all
  have l: "length (read_buffer demo_mid) = 4096" "read_idx demo_mid = 2"
    by (simp_all add: demo_mid_def after_received_def buf_simps demo_conn_def usz_add_def)
  show g: "read_grown demo_mid = demo_mid" by (simp add: read_grown_def l usz_sub_def)
  show st: "conn_fd demo_mid = 7" "unsent demo_mid = [1, 2, 3]" "last_heartbeat demo_mid = 0" "conn_state demo_mid = CONNECTED"
    using demo_conn_inv by (simp_all add: demo_mid_def) (simp_all add: unsent_def after_received_def demo_conn_def)
  show "can_recv script_os k demo_mid" "recv_size demo_mid = 4094"
    unfolding can_recv_def recv_size_def read_granted_def g by (simp_all add: inv st l)
qed

lemma demo_first_recv:
  "\<exists>w1. Connection_Recv script_os (demo_conn, demo_pooled (demo_script rs)) = (Inr 2, (demo_mid, w1)) \<and>
     kst w1 = rs \<and> calls w1 = [Sys_recv 7 4096]"
proof -
  have call: "os_call script_os (kst (demo_pooled (demo_script rs))) (Sys_recv (conn_fd demo_conn) (recv_size demo_conn)) =
      (reply_of 2 0 [5, 6], reply_of 0 0 [] # rs)"
    by (simp add: demo_pooled_def demo_world_def demo_script_def demo_recv reply_of_def)
  have clk: "os_call script_os (reply_of 0 0 [] # rs) Sys_clock = (reply_of 0 0 [], rs)" by simp
  have mid: "demo_mid\<lparr>last_heartbeat := 0\<rparr> = demo_mid" using demo_mid_inv(8) by (cases demo_mid) simp
  have "Connection_Recv script_os (demo_conn, demo_pooled (demo_script rs)) =
      (Inr 2, (demo_mid, snd (snd (Connection_Recv script_os (demo_conn, demo_pooled (demo_script rs))))))"
    using Recv_data [OF script_call_ok(1) demo_recv(2) call _ clk] mid by (simp add: demo_recv(1) reply_of_def demo_mid_def [symmetric])
  then show ?thesis
    using Recv_data [OF script_call_ok(1) demo_recv(2) call _ clk]
    by (auto simp: reply_of_def demo_pooled_def demo_world_def demo_conn_inv demo_recv)
qed

lemma demo_loop_again:
  "\<exists>w1. recv_all script_os 2 (demo_conn, demo_pooled (demo_script (reply_of (- 1) EAGAIN [] # rs))) = (Inr (- 1), (demo_mid, w1)) \<and>
     errno w1 = EAGAIN \<and> kst w1 = rs"
proof -
  obtain w1 where R: "Connection_Recv script_os (demo_conn, demo_pooled (demo_script (reply_of (- 1) EAGAIN [] # rs))) = (Inr 2, (demo_mid, w1))"
    and k: "kst w1 = reply_of (- 1) EAGAIN [] # rs"
    using demo_first_recv by blast
  have call: "os_call script_os (kst w1) (Sys_recv (conn_fd demo_mid) (recv_size demo_mid)) = (reply_of (- 1) EAGAIN [], rs)"
    by (simp add: k demo_mid_inv reply_of_def)
  show ?thesis
    using R Recv_again [OF demo_mid_inv(3) call]
    by (simp add: numeral_2_eq_2 prog_simps reply_of_def demo_mid_inv)
qed

lemma demo_loop_eof:
  "\<exists>w1. recv_all script_os 2 (demo_conn, demo_pooled (demo_script (reply_of 0 0 [] # rs))) =
      (Inr 0, (demo_mid\<lparr>conn_state := CLOSED\<rparr>, w1)) \<and> kst w1 = rs"
proof -
  obtain w1 where R: "Connection_Recv script_os (demo_conn, demo_pooled (demo_script (reply_of 0 0 [] # rs))) = (Inr 2, (demo_mid, w1))"
    and k: "kst w1 = reply_of 0 0 [] # rs"
    using demo_first_recv by blast
  have call: "os_call script_os (kst w1) (Sys_recv (conn_fd demo_mid) (recv_size demo_mid)) = (reply_of 0 0 [], rs)"
    by (simp add: k demo_mid_inv reply_of_def)
  show ?thesis
    using R Recv_eof [OF demo_mid_inv(3) call]
    by (simp add: numeral_2_eq_2 prog_simps reply_of_def demo_mid_inv)
qed

lemma demo_pooled_find: "tbl_find (get_pool (demo_pooled rs)) 7 = Some 0"
  by (simp add: demo_pooled_inv tbl_find_def)

text \<open>
  C1: The echo. When the receive loop of \<open>HandleRead\<close> has emptied the socket, everything that
  was queued to send, everything that was read but not echoed before, and all bytes that
  arrived during the loop, in this order, is offered to the kernel in one call; what it does
  not take stays queued; the read buffer is empty afterwards. Then the descriptor, which was
  disarmed by \<open>EPOLLONESHOT\<close>, is registered again, for writing too exactly when bytes are
  left to send, unless the send failed, when the descriptor is removed and the connection is
  \<open>CLOSED\<close>. Only when there is no memory to queue the bytes does the handler throw
  \<open>std::bad_alloc\<close> instead, with the received bytes still in the read buffer and no further call.
\<close>

theorem HandleRead_echoes:
  assumes "recv_ok os" "send_ok os" "cp_inv w" "tbl_find (get_pool w) fd = Some a" "heap w a = Some c"
    "conn_state c \<noteq> CLOSED" "recv_all os n (c, w) = (Inr (- 1), (c1, w1))" "errno w1 = EAGAIN"
    "grown_size (length (unread c1)) c1 < 2 ^ 63"
  shows "let w' = snd (HandleRead os n el fd w);
      stream = unsent c @ unread c @ arrived os n (c, w);
      r = fst (os_call os (kst w1) (Sys_send (conn_fd c) stream));
      again = (\<lambda>c'. Sys_epoll_ctl (epoll_fd (el_epoll el)) EPOLL_CTL_MOD fd
        (if unsent c' = [] then EPOLLIN OR EPOLLET OR EPOLLONESHOT else EPOLLIN OR EPOLLOUT OR EPOLLET OR EPOLLONESHOT))
    in if unread c @ arrived os n (c, w) \<noteq> [] \<and> \<not> write_granted os (kst w1) (length (unread c1)) c1
      then fst (HandleRead os n el fd w) = Inl Bad_alloc \<and> heap w' = (heap w)(a := Some c1) \<and> calls w' = calls w1 \<and>
        unread c1 = unread c @ arrived os n (c, w)
      else \<exists>c'. heap w' a = Some c' \<and> unread c' = [] \<and>
      (if unread c @ arrived os n (c, w) = [] then unsent c' = stream \<and> calls w' = calls w1 @ [again c']
       else take (nat (rp_ret r)) stream @ unsent c' = stream \<and>
         (if rp_ret r < 0 \<and> rp_errno r \<noteq> EAGAIN
          then conn_state c' = CLOSED \<and>
            calls w' = calls w1 @ [Sys_send (conn_fd c) stream, Sys_epoll_ctl (epoll_fd (el_epoll el)) EPOLL_CTL_DEL fd 0]
          else calls w' = calls w1 @ [Sys_send (conn_fd c) stream, again c']))"
proof -
  have ci: "conn_inv c" using assms(3,5) by (auto simp: cp_inv_def)
  have c1: "conn_inv c1" "unread c1 = unread c @ arrived os n (c, w)" "unsent c1 = unsent c" "conn_fd c1 = conn_fd c"
    "conn_state c1 \<noteq> CLOSED"
    using recv_all_spec [OF assms(1) ci assms(6,7)] assms(6,8) by auto
  obtain w2 where w2: "cp_inv w2" "cpool w2 = cpool w" "heap w2 a = Some c1" "calls w2 = calls w1" "kst w2 = kst w1"
      "heap w2 = (heap w)(a := Some c1)"
    and run: "HandleRead os n el fd w = echo_back os el fd a w2"
    by (rule HandleRead_after_loop [OF assms(1,3,4,5,7), of el]) (use assms(8) in simp)
  have find2: "tbl_find (get_pool w2) fd = Some a" using assms(4) w2(2) by (simp add: get_pool_def)
  show ?thesis
  proof (cases "unread c1 = []")
    case True
    then have "read_idx c1 = 0" using conn_invD(8) [OF c1(1)] by simp
    then have "echo_back os el fd a w2 = rearm os el fd a w2"
      using w2(3) by (simp add: echo_back_def bnd_eval deref_eval Connection_GetReadBufferSize_def)
    then show ?thesis
      using rearm_effect [OF c1(1) w2(3), of os el fd] True c1(2,3) w2(3,4) by (simp add: run Let_def)
  next
    case False
    let ?S = "unsent c @ unread c @ arrived os n (c, w)"
    have S: "unsent c1 @ unread c1 = ?S" by (simp add: c1(2,3))
    have ne: "unread c @ arrived os n (c, w) \<noteq> []" using False c1(2) by simp
    show ?thesis
    proof (cases "write_granted os (kst w1) (length (unread c1)) c1")
      case no_memory: False
      obtain w3 where "move_prog os a c1 w2 = (Inl Bad_alloc, w3)" "heap w3 = heap w2" "calls w3 = calls w2"
        by (rule move_bytes_no_memory [OF w2(1,3) assms(9), of os]) (use no_memory w2(5) in simp_all)
      then show ?thesis
        using ne no_memory w2(4,6) c1(2) unfolding run echo_back_eval [OF c1(1) w2(3) False]
        by (simp add: Let_def andthen_eval)
    next
      case granted: True
      obtain c' cs r where E: "heap (snd (HandleRead os n el fd w)) a = Some c'" "unread c' = []"
        "r = fst (os_call os (kst w1) (Sys_send (conn_fd c) ?S))" "take (nat (rp_ret r)) ?S @ unsent c' = ?S"
        "calls (snd (HandleRead os n el fd w)) = calls w1 @ Sys_send (conn_fd c) ?S # cs"
        "if rp_ret r < 0 \<and> rp_errno r \<noteq> EAGAIN
        then cs = [Sys_epoll_ctl (epoll_fd (el_epoll el)) EPOLL_CTL_DEL fd 0] \<and> conn_state c' = CLOSED
        else cs = [Sys_epoll_ctl (epoll_fd (el_epoll el)) EPOLL_CTL_MOD fd
         (if unsent c' = [] then EPOLLIN OR EPOLLET OR EPOLLONESHOT else EPOLLIN OR EPOLLOUT OR EPOLLET OR EPOLLONESHOT)]"
        using echo_back_effect [OF assms(2) w2(1) find2 w2(3) c1(5) assms(9) False, of el, folded run, unfolded S c1(4) w2(4,5), OF granted]
        by blast
      have "\<not> (unread c @ arrived os n (c, w) \<noteq> [] \<and> \<not> write_granted os (kst w1) (length (unread c1)) c1)"
        using granted by simp
      then show ?thesis
        unfolding Let_def if_not_P [OF ne] E(3) [symmetric] using E(1,2,4-6)
        by (cases "rp_ret r < 0 \<and> rp_errno r \<noteq> EAGAIN") (simp only: if_False, rule exI [of _ c'], simp)+
    qed
  qed
qed

lemma HandleRead_echoes_witness:
  "\<exists>c'. heap (snd (HandleRead script_os 2 demo_loop 7 (demo_pooled (demo_script [reply_of (- 1) EAGAIN [], reply_of 4 0 []])))) 0 = Some c' \<and>
     unread c' = [] \<and> [1, 2, 3, 5] @ unsent c' = [1, 2, 3, 5, 6]"
proof -
  let ?rs = "demo_script [reply_of (- 1) EAGAIN [], reply_of 4 0 []]" and ?w = "demo_pooled (demo_script [reply_of (- 1) EAGAIN [], reply_of 4 0 []])"
  obtain w1 where L: "recv_all script_os 2 (demo_conn, ?w) = (Inr (- 1), (demo_mid, w1))" "errno w1 = EAGAIN"
      "kst w1 = [reply_of 4 0 []]"
    using demo_loop_again by blast
  have st: "conn_state demo_conn \<noteq> CLOSED" by (simp add: demo_conn_inv)
  have len: "length (write_buffer demo_mid) = 4" "write_idx demo_mid = 3"
    by (simp_all add: demo_mid_def after_received_def demo_conn_def)
  have "grown_size (length (unread demo_mid)) demo_mid < 2 ^ 63"
    by (simp add: grown_size_def len demo_mid_inv usz_add_def usz_mul_def)
  note E = HandleRead_echoes [OF script_call_ok(1,2) demo_pooled_inv(1) demo_pooled_find demo_pooled_inv(3) st L(1,2) this, of demo_loop]
  have "unread demo_mid = unread demo_conn @ arrived script_os 2 (demo_conn, ?w)"
    using recv_all_spec [OF script_call_ok(1) demo_conn_inv(1) st L(1)] by simp
  then have "arrived script_os 2 (demo_conn, ?w) = [5, 6]" by (simp add: demo_mid_inv demo_conn_inv)
  moreover have "write_granted script_os k m demo_mid" for k m by (simp add: write_granted_def)
  ultimately show ?thesis using E by (auto simp: demo_conn_inv L(3) reply_of_def Let_def)
qed

text \<open>
  C12: \<open>HandleRead\<close> returns: the receive loop ends as soon as the kernel has delivered what it
  has. With more rounds than deliveries that are still possible, the handler does not run out
  of rounds, whatever connection the descriptor belongs to and however the call ends.
\<close>

theorem HandleRead_terminates:
  assumes "recv_ok os" "drains os pend" "cp_inv w"
  shows "fst (HandleRead os (Suc (pend (kst w))) el fd w) \<noteq> Inl Diverges"
  using HandleRead_ends [OF assms lessI] .

lemma HandleRead_terminates_witness:
  "drains script_os length \<and> fst (HandleRead script_os 4 demo_loop 7 (demo_pooled [reply_of 1 0 [9], reply_of 0 0 [], reply_of 0 0 []])) \<noteq> Inl Diverges"
proof -
  have "length (snd (script_call k c)) \<le> length k" for k c by (cases k) simp_all
  moreover have "0 < rp_ret (fst (script_call k c)) \<Longrightarrow> length (snd (script_call k c)) < length k" for k c
    by (cases k) (simp_all add: reply_of_def)
  ultimately have d: "drains script_os length" by (simp add: drains_def)
  show ?thesis
    using HandleRead_terminates [OF script_call_ok(1) d demo_pooled_inv(1) [of "[reply_of 1 0 [9], reply_of 0 0 [], reply_of 0 0 []]"], of demo_loop 7] d
    by (simp add: demo_pooled_def demo_world_def numeral_eq_Suc)
qed

text \<open>
  C18: The end of the stream is not handled. When the peer closes its side, whatever it sent
  before, \<open>HandleRead\<close> drops the connection from the pool without \<open>close(fd)\<close>: the receive loop
  has marked the connection \<open>CLOSED\<close> before, and \<open>Close\<close> does nothing for such a connection,
  then or later, so the descriptor is leaked. The bytes that arrived with the end of the
  stream are not echoed: no \<open>send\<close> is made for them.
\<close>

theorem peer_close_leaks_fd:
  assumes "recv_ok os" "cp_inv w" "tbl_find (get_pool w) fd = Some a" "heap w a = Some c"
    "conn_state c \<noteq> CLOSED" "conn_fd c = fd" "recv_all os n (c, w) = (Inr 0, (c1, w1))"
    "0 \<le> rp_ret (fst (os_call os (kst w1) (Sys_epoll_ctl (epoll_fd (el_epoll el)) EPOLL_CTL_DEL fd 0)))"
  shows "\<exists>w' c'. HandleRead os n el fd w = (Inr (), w') \<and> tbl_find (get_pool w') fd = None \<and>
    heap w' a = Some c' \<and> conn_fd c' = fd \<and> unread c' = unread c @ arrived os n (c, w) \<and>
    closes fd w' = closes fd w \<and> (\<forall>b. Sys_send fd b \<notin> set (drop (length (calls w)) (calls w'))) \<and>
    (\<forall>w'' :: 'k sysw. Connection_Close os (c', w'') = (Inr (), (c', w'')))"
proof -
  have ci: "conn_inv c" using assms(2,4) by (auto simp: cp_inv_def)
  have c1: "unread c1 = unread c @ arrived os n (c, w)" "conn_fd c1 = fd" "conn_state c1 = CLOSED" "sys_only w w1"
    "closes fd w1 = closes fd w" "\<forall>b. Sys_send fd b \<notin> set (drop (length (calls w)) (calls w1))"
    using recv_all_spec [OF assms(1) ci assms(5,7)] assms(6) by auto
  obtain w2 where w2: "cp_inv w2" "cpool w2 = cpool w" "heap w2 a = Some c1" "calls w2 = calls w1" "kst w2 = kst w1"
    and run: "HandleRead os n el fd w = HandleError os el fd (w2\<lparr>logs := logs w2 @ [(INFO, ''Client closed: '' @ conn_name c1)]\<rparr>)"
    by (rule HandleRead_after_loop [OF assms(1-4,7), of el]) simp
  let ?w2 = "w2\<lparr>logs := logs w2 @ [(INFO, ''Client closed: '' @ conn_name c1)]\<rparr>"
  have find2: "tbl_find (get_pool ?w2) fd = Some a" using assms(3) w2(2) by (simp add: get_pool_def)
  have inv2: "cp_inv ?w2" "heap ?w2 a = Some c1" using w2 by simp_all
  have same: "closed_conn c1 = c1" "close_calls c1 = []" by (simp_all add: closed_conn_def close_calls_def c1(3))
  from inv2(1) find2 inv2(2) show ?thesis
  proof (cases rule: HandleError_effect [where os = os and el = el])
    case (removed w')
    have ok: "tbl_ok (get_pool ?w2)" using inv2(1) by (simp add: cp_inv_def)
    obtain cs where cs: "calls w1 = calls w @ cs" using c1(4) by (auto simp: sys_only_def)
    have "tbl_find (get_pool w') fd = None" using tb.find_erase [OF ok, of fd] removed(3) by simp
    moreover have "closes fd w' = closes fd w" "\<forall>b. Sys_send fd b \<notin> set (drop (length (calls w)) (calls w'))"
      using removed(5) c1(5,6) w2(4) same(2) cs by (auto simp: closes_def)
    moreover have "Connection_Close os (c1, w'') = (Inr (), (c1, w''))" for w'' :: "'k sysw"
      by (simp add: Close_eval c1(3))
    ultimately show ?thesis using removed(1,4) run c1(1,2) same(1) by auto
  next
    case (failed e w')
    then show ?thesis using assms(8) w2(5) by simp
  qed
qed

lemma peer_close_leaks_fd_witness:
  "\<exists>w' c'. HandleRead script_os 2 demo_loop 7 (demo_pooled (demo_script [reply_of 0 0 [], reply_of 0 0 []])) = (Inr (), w') \<and>
     tbl_find (get_pool w') 7 = None \<and> heap w' 0 = Some c' \<and> conn_fd c' = 7 \<and>
     closes 7 w' = closes 7 (demo_pooled (demo_script [reply_of 0 0 [], reply_of 0 0 []]))"
proof -
  obtain w1 where L: "recv_all script_os 2 (demo_conn, demo_pooled (demo_script [reply_of 0 0 [], reply_of 0 0 []])) =
      (Inr 0, (demo_mid\<lparr>conn_state := CLOSED\<rparr>, w1))" "kst w1 = [reply_of 0 0 []]"
    using demo_loop_eof by blast
  have st: "conn_state demo_conn \<noteq> CLOSED" "conn_fd demo_conn = 7" by (simp_all add: demo_conn_inv)
  have del: "0 \<le> rp_ret (fst (os_call script_os (kst w1) (Sys_epoll_ctl (epoll_fd (el_epoll demo_loop)) EPOLL_CTL_DEL 7 0)))"
    by (simp add: L(2) reply_of_def)
  show ?thesis
    using peer_close_leaks_fd [OF script_call_ok(1) demo_pooled_inv(1) demo_pooled_find demo_pooled_inv(3) st L(1) del] by blast
qed

text \<open>
  C16: \<open>HandleWrite\<close>, when the kernel takes bytes: a prefix of the queue is sent, the rest stays
  queued in order, and the descriptor is registered again for reading, and for writing
  exactly when bytes are left.
\<close>

theorem HandleWrite_sends:
  assumes "send_ok os" "cp_inv w" "tbl_find (get_pool w) fd = Some a" "heap w a = Some c"
    "conn_state c \<noteq> CLOSED" "unsent c \<noteq> []"
    "r = fst (os_call os (kst w) (Sys_send (conn_fd c) (unsent c)))" "0 < rp_ret r"
  shows "\<exists>c'. heap (snd (HandleWrite os el fd w)) a = Some c' \<and>
    take (nat (rp_ret r)) (unsent c) @ unsent c' = unsent c \<and> conn_state c' = conn_state c \<and>
    calls (snd (HandleWrite os el fd w)) = calls w @ [Sys_send (conn_fd c) (unsent c),
      Sys_epoll_ctl (epoll_fd (el_epoll el)) EPOLL_CTL_MOD fd
       (if unsent c' = [] then EPOLLIN OR EPOLLET OR EPOLLONESHOT else (EPOLLIN OR EPOLLET OR EPOLLONESHOT) OR EPOLLOUT)]"
proof -
  have ci: "conn_inv c" using assms(2,4) by (auto simp: cp_inv_def)
  obtain res c1 w1 where S: "Connection_Send os (c, w) = (res, (c1, w1))" by (metis surj_pair)
  have sm: "res = Inr (rp_ret r)" "calls w1 = calls w @ [Sys_send (conn_fd c) (unsent c)]"
    "unsent c = take (nat (rp_ret r)) (unsent c) @ unsent c1" "conn_state c1 = conn_state c"
    using Send_summary [OF assms(1) ci assms(5) S] assms(6-8) by auto
  obtain w2 where w2: "cp_inv w2" "heap w2 a = Some c1" "calls w2 = calls w1"
    and run: "HandleWrite os el fd w = bnd (on_conn a (Connection_UpdateHeartbeat os)) (\<lambda>_. bnd (deref a) (\<lambda>c.
       EventLoop_ModifyFd os el fd (if Connection_HasPendingData c then (EPOLLIN OR EPOLLET OR EPOLLONESHOT) OR EPOLLOUT
         else EPOLLIN OR EPOLLET OR EPOLLONESHOT))) w2"
    by (rule HandleWrite_after_send [OF assms(1-4) S [unfolded sm(1)], of el]) (use assms(8) in simp)
  from heartbeat_then_rearm [OF w2(1,2)] obtain w' t where
    "heap w' a = Some (c1\<lparr>last_heartbeat := t\<rparr>)" "snd (HandleWrite os el fd w) = w'"
    "calls w' = calls w2 @ [Sys_epoll_ctl (epoll_fd (el_epoll el)) EPOLL_CTL_MOD fd
       (if unsent c1 = [] then EPOLLIN OR EPOLLET OR EPOLLONESHOT else (EPOLLIN OR EPOLLET OR EPOLLONESHOT) OR EPOLLOUT)]"
    unfolding run by blast
  then show ?thesis
    using sm w2(3) by (intro exI [of _ "c1\<lparr>last_heartbeat := t\<rparr>"]) simp
qed

lemma HandleWrite_sends_witness:
  "\<exists>c'. heap (snd (HandleWrite script_os demo_loop 7 (demo_pooled [reply_of 2 0 []]))) 0 = Some c' \<and> unsent c' = [3]"
proof -
  have w: "conn_state demo_conn \<noteq> CLOSED" "unsent demo_conn \<noteq> []" by (simp_all add: demo_conn_inv)
  have r: "reply_of 2 0 [] = fst (os_call script_os (kst (demo_pooled [reply_of 2 0 []])) (Sys_send (conn_fd demo_conn) (unsent demo_conn)))"
    by (simp add: demo_pooled_def demo_world_def demo_conn_inv reply_of_def)
  have "0 < rp_ret (reply_of 2 0 [])" by (simp add: reply_of_def)
  from HandleWrite_sends [OF script_call_ok(2) demo_pooled_inv(1) demo_pooled_find demo_pooled_inv(3) w r this, of demo_loop]
  show ?thesis by (auto simp: demo_conn_inv reply_of_def)
qed

text \<open>
  C19: \<open>HandleWrite\<close> forgets the descriptor when the kernel takes nothing. After \<open>EAGAIN\<close> it
  returns with bytes still queued and makes no \<open>epoll_ctl\<close> call; the descriptor was disarmed
  by \<open>EPOLLONESHOT\<close> when the event was delivered, so no further event comes for it: the
  queued bytes and all later requests of this client wait until the timeout.
\<close>

theorem HandleWrite_EAGAIN_stalls:
  assumes "send_ok os" "cp_inv w" "tbl_find (get_pool w) fd = Some a" "heap w a = Some c"
    "conn_state c \<noteq> CLOSED" "unsent c \<noteq> []"
    "r = fst (os_call os (kst w) (Sys_send (conn_fd c) (unsent c)))" "rp_ret r = - 1" "rp_errno r = EAGAIN"
  shows "\<exists>w'. HandleWrite os el fd w = (Inr (), w') \<and> calls w' = calls w @ [Sys_send (conn_fd c) (unsent c)] \<and>
    tbl_find (get_pool w') fd = Some a \<and> (\<exists>c'. heap w' a = Some c' \<and> unsent c' = unsent c \<and> conn_state c' \<noteq> CLOSED)"
proof -
  have ci: "conn_inv c" using assms(2,4) by (auto simp: cp_inv_def)
  have can: "can_send c" using ci assms(5,6) by (auto simp: can_send_def unsent_def)
  obtain k where call: "os_call os (kst w) (Sys_send (conn_fd c) (unsent c)) = (r, k)"
    using assms(7) by (metis prod.collapse)
  obtain w1 where S: "Connection_Send os (c, w) = (Inr (- 1), (c, w1))" "errno w1 = EAGAIN"
      "calls w1 = calls w @ [Sys_send (conn_fd c) (unsent c)]"
    using Send_again [OF can call] assms(8,9) by simp
  obtain w2 where "cpool w2 = cpool w" "heap w2 a = Some c" "calls w2 = calls w1" "HandleWrite os el fd w = (Inr (), w2)"
    by (rule HandleWrite_after_send [OF assms(1-4) S(1), of el]) (use S(2) in simp)
  then show ?thesis using S(3) assms(3,5) by (simp add: get_pool_def)
qed

lemma HandleWrite_EAGAIN_stalls_witness:
  "\<exists>w'. HandleWrite script_os demo_loop 7 (demo_pooled []) = (Inr (), w') \<and> calls w' = [Sys_send 7 [1, 2, 3]]"
proof -
  have w: "conn_state demo_conn \<noteq> CLOSED" "unsent demo_conn \<noteq> []" by (simp_all add: demo_conn_inv)
  have r: "reply_of (- 1) EAGAIN [] = fst (os_call script_os (kst (demo_pooled [])) (Sys_send (conn_fd demo_conn) (unsent demo_conn)))"
    by (simp add: demo_pooled_def demo_world_def)
  have "rp_ret (reply_of (- 1) EAGAIN []) = - 1" "rp_errno (reply_of (- 1) EAGAIN []) = EAGAIN" by (simp_all add: reply_of_def)
  from HandleWrite_EAGAIN_stalls [OF script_call_ok(2) demo_pooled_inv(1) demo_pooled_find demo_pooled_inv(3) w r this, of demo_loop]
  show ?thesis by (auto simp: demo_conn_inv demo_pooled_def demo_world_def)
qed

text \<open>
  C14: One round of an event loop handles exactly the events that the kernel reported, in
  their order, and never reads outside of the array of events. An interrupted wait handles
  nothing and the loop goes on; any other error of \<open>epoll_wait\<close> throws its message before
  a handler runs.
\<close>

theorem loop_dispatches_events:
  fixes w :: "('k, 'z) world_scheme"
  assumes "epoll_wait_ok os" "el_ok el" "r = wait_reply os el w"
  shows "\<exists>w1. sys_only w w1 \<and>
    calls w1 = calls w @ [Sys_epoll_wait (epoll_fd (el_epoll el)) (max_events (el_epoll el)) (- 1)] \<and>
    el_ok (after_wait r el) \<and>
    loop_round os n (el, w) =
      (if 0 \<le> rp_ret r
       then (case handle_each os n (after_wait r el) (rp_events r) w1 of
           (Inl e, w2) \<Rightarrow> (Inl e, (after_wait r el, w2))
         | (Inr _, w2) \<Rightarrow> (Inr True, (after_wait r el, w2)))
       else if rp_errno r = EINTR then (Inr True, (after_wait r el, w1))
       else (Inl (Runtime_error (''epoll_wait failed: '' @ os_strerror os (rp_errno r))), (after_wait r el, w1)))"
proof -
  let ?el = "after_wait r el"
  note ok = after_wait_ok [OF assms]
  obtain w1 where w1: "sys_only w w1"
    "calls w1 = calls w @ [Sys_epoll_wait (epoll_fd (el_epoll el)) (max_events (el_epoll el)) (- 1)]"
    and wait: "on_epoll (Epoll_Wait os (- 1)) (el, w) =
       (if 0 \<le> rp_ret r then Inr (rp_ret r) else if rp_errno r = EINTR then Inr 0
        else Inl (Runtime_error (''epoll_wait failed: '' @ os_strerror os (rp_errno r))), (?el, w1))"
    by (rule on_epoll_Wait [OF assms])
  have count: "Epoll_GetEventCount (el_epoll ?el) = rp_ret r" by (simp add: Epoll_GetEventCount_def after_wait_def)
  have hs: "HandleEvents os n ?el = (if 0 \<le> rp_ret r then handle_each os n ?el (rp_events r) else ret () :: (('k, 'z) world_scheme, unit) prog)"
    using ok(2,3) by (auto simp: HandleEvents_def count handle_from_each)
  have "loop_round os n (el, w) =
      (if 0 \<le> rp_ret r
       then (case handle_each os n ?el (rp_events r) w1 of
           (Inl e, w2) \<Rightarrow> (Inl e, (?el, w2)) | (Inr _, w2) \<Rightarrow> (Inr True, (?el, w2)))
       else if rp_errno r = EINTR then (Inr True, (?el, w1))
       else (Inl (Runtime_error (''epoll_wait failed: '' @ os_strerror os (rp_errno r))), (?el, w1)))"
    using wait hs by (simp add: loop_round_def prog_simps split: prod.split sum.split)
  with w1 ok(1) show ?thesis by blast
qed

lemma loop_dispatches_events_witness:
  "\<exists>w2. loop_round script_os 1 (demo_loop, demo_pooled [(reply_of 1 0 [])\<lparr>rp_events := [\<lparr>ev_events = 0, ev_fd = 7\<rparr>]\<rparr>]) =
     (Inr True, (after_wait ((reply_of 1 0 [])\<lparr>rp_events := [\<lparr>ev_events = 0, ev_fd = 7\<rparr>]\<rparr>) demo_loop, w2))"
proof -
  let ?r = "(reply_of 1 0 [])\<lparr>rp_events := [\<lparr>ev_events = 0, ev_fd = 7\<rparr>]\<rparr>"
  have ok: "el_ok demo_loop" by (simp add: el_ok_def demo_loop_def)
  have r: "?r = wait_reply script_os demo_loop (demo_pooled [?r])"
    by (simp add: wait_reply_def demo_pooled_def demo_world_def reply_of_def demo_loop_def)
  show ?thesis
    using loop_dispatches_events [OF script_call_ok(3) ok r, of 1]
    by (auto simp: reply_of_def handle_event_def prog_simps)
qed

end
