(* ===== verification/Net_IOThreadPool.thy ===== *)
theory Net_IOThreadPool
  imports Net_EventLoop
begin

text \<open>
  \<open>net::IOThreadPool\<close> (\<open>src/net/io_thread_pool.h\<close>, \<open>src/net/io_thread_pool.cpp\<close>): the event
  loops of the I/O threads, and the round-robin choice of the loop for a new connection. A
  pointer to a loop is its index in the vector.
\<close>

section \<open>State and operations\<close>

text \<open>What a started thread runs: the callback of the main reactor, or the loop at an index.\<close>

datatype io_thread = Main_reactor_thread | Loop_thread nat

record IOThreadPool =
  loops :: "EventLoop list"
  threads :: "io_thread list"
  next_loop_idx :: size_t
  main_reactor_func :: bool

text \<open>
  The constructor. An exception of the constructor of a loop destroys the loops made before.
\<close>

definition destroy_loops :: "'k os \<Rightarrow> EventLoop list \<Rightarrow> ('k, 'z) sysw_scheme \<Rightarrow> ('k, 'z) sysw_scheme" where
  "destroy_loops os ls w = fold (\<lambda>el w. snd (snd (EventLoop_delete os (el, w)))) ls w"

fun make_loops :: "'k os \<Rightarrow> nat \<Rightarrow> nat \<Rightarrow> EventLoop list \<Rightarrow> (('k, 'z) sysw_scheme, EventLoop list) prog" where
  "make_loops os this_thread 0 acc = ret acc"
| "make_loops os this_thread (Suc n) acc =
     bnd (on_throw (EventLoop_new os this_thread) (destroy_loops os acc)) (\<lambda>el.
       make_loops os this_thread n (acc @ [el]))"

definition IOThreadPool_new :: "'k os \<Rightarrow> nat \<Rightarrow> size_t \<Rightarrow> (('k, 'z) sysw_scheme, IOThreadPool) prog" where
  "IOThreadPool_new os this_thread thread_num =
     (let n = (if thread_num = 0 then 1 else thread_num)
      in andthen (LOG INFO (''Creating IO thread pool with '' @ to_string (int n) @ '' threads''))
        (bnd (make_loops os this_thread n []) (\<lambda>ls.
           ret \<lparr>loops = ls, threads = [], next_loop_idx = 0, main_reactor_func = False\<rparr>)))"

definition IOThreadPool_SetMainReactorFunc :: "IOThreadPool \<Rightarrow> IOThreadPool" where
  "IOThreadPool_SetMainReactorFunc p = p\<lparr>main_reactor_func := True\<rparr>"

fun start_threads :: "nat list \<Rightarrow> (IOThreadPool \<times> ('k, 'z) sysw_scheme, unit) prog" where
  "start_threads [] = ret ()"
| "start_threads (i # is) = bnd (gets fst) (\<lambda>p.
     andthen (if i = 0 \<and> main_reactor_func p
        then andthen (modify (\<lambda>(p, w). (p\<lparr>threads := threads p @ [Main_reactor_thread]\<rparr>, w)))
               (on_snd (LOG INFO ''Main reactor thread started''))
        else andthen (modify (\<lambda>(p, w). (p\<lparr>threads := threads p @ [Loop_thread i]\<rparr>, w)))
               (on_snd (LOG INFO (''IO thread '' @ to_string (int i) @ '' started''))))
       (start_threads is))"

definition IOThreadPool_Start :: "(IOThreadPool \<times> ('k, 'z) sysw_scheme, unit) prog" where
  "IOThreadPool_Start = bnd (gets fst) (\<lambda>p. start_threads [0..<length (loops p)])"

text \<open>\<open>Stop\<close> stops every loop, waits for the threads and drops them.\<close>

fun stop_loops :: "'k os \<Rightarrow> EventLoop list \<Rightarrow> ('k, 'z) sysw_scheme \<Rightarrow> EventLoop list \<times> ('k, 'z) sysw_scheme" where
  "stop_loops os [] w = ([], w)"
| "stop_loops os (el # ls) w =
     (case snd (EventLoop_Stop os (el, w)) of (el', w') \<Rightarrow>
        case stop_loops os ls w' of (ls', w'') \<Rightarrow> (el' # ls', w''))"

definition IOThreadPool_Stop :: "'k os \<Rightarrow> (IOThreadPool \<times> ('k, 'z) sysw_scheme, unit) prog" where
  "IOThreadPool_Stop os = modify (\<lambda>(p, w).
     case stop_loops os (loops p) w of (ls, w') \<Rightarrow> (p\<lparr>loops := ls, threads := []\<rparr>, w'))"

definition IOThreadPool_delete :: "'k os \<Rightarrow> IOThreadPool \<times> ('k, 'z) sysw_scheme \<Rightarrow> ('k, 'z) sysw_scheme" where
  "IOThreadPool_delete os pw =
     (case snd (IOThreadPool_Stop os pw) of (p, w) \<Rightarrow> destroy_loops os (loops p) w)"

text \<open>\<open>None\<close> is the null pointer; an index outside of the vector is undefined behaviour.\<close>

definition GetNextEventLoop :: "(IOThreadPool \<times> 'w, nat option) prog" where
  "GetNextEventLoop = bnd (gets fst) (\<lambda>p.
     if loops p = [] then ret None
     else if length (loops p) \<le> next_loop_idx p then throw (Undefined_behaviour ''loop index'')
     else andthen (modify (\<lambda>(p, w). (p\<lparr>next_loop_idx := usz_add (next_loop_idx p) 1 mod length (loops p)\<rparr>, w)))
            (ret (Some (next_loop_idx p))))"

definition GetEventLoop :: "IOThreadPool \<Rightarrow> size_t \<Rightarrow> nat option" where
  "GetEventLoop p index = (if index < length (loops p) then Some index else None)"

definition IOThreadPool_Size :: "IOThreadPool \<Rightarrow> size_t" where
  "IOThreadPool_Size p = length (loops p)"

section \<open>Lemmas\<close>

text \<open>The pool has a loop, and the index of the next one is valid.\<close>

definition io_ok :: "IOThreadPool \<Rightarrow> bool" where
  "io_ok p \<longleftrightarrow> next_loop_idx p < length (loops p) \<and> length (loops p) < 2 ^ 63"

lemma GetNextEventLoop_eval:
  assumes "io_ok p"
  shows "GetNextEventLoop (p, w) = (Inr (Some (next_loop_idx p)),
    (p\<lparr>next_loop_idx := Suc (next_loop_idx p) mod length (loops p)\<rparr>, w))"
proof -
  have "usz_add (next_loop_idx p) 1 = Suc (next_loop_idx p)"
    using assms by (simp add: io_ok_def usz_simps)
  then show ?thesis using assms by (auto simp: GetNextEventLoop_def prog_simps io_ok_def)
qed

lemma io_ok_next: "io_ok p \<Longrightarrow> io_ok (p\<lparr>next_loop_idx := Suc (next_loop_idx p) mod length (loops p)\<rparr>)"
  by (auto simp: io_ok_def intro!: mod_less_divisor)

text \<open>Stopping and destroying the loops.\<close>

abbreviation loop_fds :: "EventLoop list \<Rightarrow> int list" where
  "loop_fds ls \<equiv> map (\<lambda>el. epoll_fd (el_epoll el)) ls"

lemma stop_loops_spec:
  "stop_loops os ls w = (ls', w') \<Longrightarrow>
     map el_epoll ls' = map el_epoll ls \<and> sys_only w w' \<and> closes fd w' = closes fd w"
proof (induction ls arbitrary: w ls')
  case (Cons el ls)
  obtain el1 w1 where 1: "snd (EventLoop_Stop os (el, w)) = (el1, w1)" by force
  obtain ls2 w2 where 2: "stop_loops os ls w1 = (ls2, w2)" by force
  from EventLoop_Stop_spec [OF 1] Cons.IH [of w1 ls2] 1 2 Cons.prems show ?case
    by (auto intro: sys_only_trans)
qed simp

lemma destroy_loops_spec:
  "sys_only w (destroy_loops os ls w)"
  "fd \<noteq> - 1 \<Longrightarrow> closes fd (destroy_loops os ls w) = closes fd w + count_list (loop_fds ls) fd"
proof -
  show "sys_only w (destroy_loops os ls w)"
    unfolding destroy_loops_def
    by (induction ls arbitrary: w) (auto intro: sys_only_trans EventLoop_delete_spec(1))
  show "fd \<noteq> - 1 \<Longrightarrow> closes fd (destroy_loops os ls w) = closes fd w + count_list (loop_fds ls) fd"
    unfolding destroy_loops_def
    by (induction ls arbitrary: w) (simp_all add: EventLoop_delete_spec(2))
qed

lemma IOThreadPool_delete_spec:
  "sys_only w (IOThreadPool_delete os (p, w))"
  "fd \<noteq> - 1 \<Longrightarrow> closes fd (IOThreadPool_delete os (p, w)) = closes fd w + count_list (loop_fds (loops p)) fd"
proof -
  obtain ls w1 where l: "stop_loops os (loops p) w = (ls, w1)" by force
  have eq: "IOThreadPool_delete os (p, w) = destroy_loops os ls w1"
    by (simp add: IOThreadPool_delete_def IOThreadPool_Stop_def modify_def l)
  have st: "map el_epoll ls = map el_epoll (loops p)" "sys_only w w1" "closes fd w1 = closes fd w"
    using stop_loops_spec [OF l] by simp_all
  have "loop_fds ls = map epoll_fd (map el_epoll ls)" by simp
  also have "\<dots> = loop_fds (loops p)" unfolding st(1) by simp
  finally have fds: "loop_fds ls = loop_fds (loops p)" .
  show "sys_only w (IOThreadPool_delete os (p, w))"
    unfolding eq by (rule sys_only_trans [OF st(2) destroy_loops_spec(1)])
  show "fd \<noteq> - 1 \<Longrightarrow> closes fd (IOThreadPool_delete os (p, w)) = closes fd w + count_list (loop_fds (loops p)) fd"
    unfolding eq by (simp add: destroy_loops_spec(2) st(3) fds del: map_map)
qed

text \<open>\<open>k\<close> calls in a row: the loops chosen.\<close>

fun choose_loops :: "nat \<Rightarrow> IOThreadPool \<Rightarrow> nat option list \<times> IOThreadPool" where
  "choose_loops 0 p = ([], p)"
| "choose_loops (Suc k) p =
     (case GetNextEventLoop (p, ()) of
        (Inl e, (p', _)) \<Rightarrow> ([], p')
      | (Inr i, (p', _)) \<Rightarrow> (case choose_loops k p' of (is, p'') \<Rightarrow> (i # is, p'')))"

lemma choose_loops_eval:
  "io_ok p \<Longrightarrow> choose_loops k p =
     (map (\<lambda>j. Some ((next_loop_idx p + j) mod length (loops p))) [0..<k],
      p\<lparr>next_loop_idx := (next_loop_idx p + k) mod length (loops p)\<rparr>)"
proof (induction k arbitrary: p)
  case 0
  then show ?case by (simp add: io_ok_def)
next
  case (Suc k)
  let ?n = "length (loops p)" and ?i = "next_loop_idx p"
  let ?p' = "p\<lparr>next_loop_idx := Suc ?i mod ?n\<rparr>"
  have ih: "choose_loops k ?p' = (map (\<lambda>j. Some ((Suc ?i mod ?n + j) mod ?n)) [0..<k],
      ?p'\<lparr>next_loop_idx := (Suc ?i mod ?n + k) mod ?n\<rparr>)"
    using Suc.IH [OF io_ok_next [OF Suc.prems]] by simp
  have "map (\<lambda>j. Some ((?i + j) mod ?n)) [0..<Suc k] =
      Some (?i mod ?n) # map (\<lambda>j. Some ((Suc ?i mod ?n + j) mod ?n)) [0..<k]"
    by (simp add: upt_rec [of 0] map_Suc_upt [symmetric] mod_add_left_eq del: upt_Suc)
  moreover have "?i mod ?n = ?i" using Suc.prems by (simp add: io_ok_def)
  moreover have "(Suc ?i mod ?n + k) mod ?n = (?i + Suc k) mod ?n" by (simp add: mod_add_left_eq)
  ultimately show ?case
    using ih GetNextEventLoop_eval [OF Suc.prems, of "()"] by simp
qed

lemma stop_loops_running: "map el_running (fst (stop_loops os ls w)) = map (\<lambda>_. False) ls"
proof (induction ls arbitrary: w)
  case (Cons el ls)
  have "el_running (fst (snd (EventLoop_Stop os (el, w)))) = False"
    by (simp add: EventLoop_Stop_def prog_simps)
  then show ?case using Cons by (simp split: prod.split) (metis fst_conv)
qed simp

text \<open>In \<open>k * n\<close> consecutive numbers, each remainder modulo \<open>n\<close> occurs \<open>k\<close> times.\<close>

lemma count_list_distinct: "distinct xs \<Longrightarrow> x \<in> set xs \<Longrightarrow> count_list xs x = 1"
  by (induction xs) auto

lemma rotation_once:
  assumes "i < (n :: nat)"
  shows "count_list (map (\<lambda>j. (s + j) mod n) [0..<n]) i = 1"
proof -
  have "inj_on (\<lambda>j. (s + j) mod n) {0..<n}"
  proof (rule inj_onI)
    fix x y assume "x \<in> {0..<n}" "y \<in> {0..<n}" "(s + x) mod n = (s + y) mod n"
    then show "x = y" by (metis add_diff_cancel_left atLeastLessThan_iff mod_less nat_mod_eq_iff
          mod_eq_dvd_iff_nat mod_add_left_eq nat_add_left_cancel_le nat_le_linear dvd_imp_le diff_less_mono2
          linorder_not_less zero_less_diff less_imp_diff_less le_neq_implies_less)
  qed
  then have d: "distinct (map (\<lambda>j. (s + j) mod n) [0..<n])" by (simp add: distinct_map)
  have "set (map (\<lambda>j. (s + j) mod n) [0..<n]) = {0..<n}"
    by (rule card_subset_eq) (use assms distinct_card [OF d] in auto)
  with assms count_list_distinct [OF d] show ?thesis by auto
qed

lemma rotation_fair:
  assumes "i < (n :: nat)"
  shows "count_list (map (\<lambda>j. (s + j) mod n) [0..<k * n]) i = k"
proof (induction k)
  case (Suc k)
  have "[0..<Suc k * n] = [0..<k * n] @ map (\<lambda>j. k * n + j) [0..<n]"
    using upt_add_eq_append [of 0 "k * n" n] by (simp add: map_add_upt add.commute)
  then have "map (\<lambda>j. (s + j) mod n) [0..<Suc k * n] =
      map (\<lambda>j. (s + j) mod n) [0..<k * n] @ map (\<lambda>j. (s + j) mod n) [0..<n]"
    by (simp add: add.left_commute [of s])
  then show ?case using Suc rotation_once [OF assms, of s] by simp
qed simp

section \<open>Properties\<close>

text \<open>
  C17: The choice of an event loop is round robin. Starting from any position, every call of
  \<open>GetNextEventLoop\<close> gives a loop of the pool (never the null pointer, never an index outside
  of the vector), and of any \<open>k * n\<close> consecutive calls on a pool of \<open>n\<close> loops each loop gets
  exactly \<open>k\<close>; the position is then the same as before.
\<close>

theorem round_robin_fair:
  assumes "io_ok p" "i < length (loops p)"
  shows "count_list (fst (choose_loops (k * length (loops p)) p)) (Some i) = k \<and>
    (\<forall>x \<in> set (fst (choose_loops m p)). \<exists>j. x = Some j \<and> j < length (loops p)) \<and>
    snd (choose_loops (k * length (loops p)) p) = p"
proof -
  let ?n = "length (loops p)"
  have inj: "count_list (map Some xs) (Some i) = count_list xs i" for xs :: "nat list"
    by (induction xs) auto
  have "count_list (fst (choose_loops (k * ?n) p)) (Some i) =
      count_list (map Some (map (\<lambda>j. (next_loop_idx p + j) mod ?n) [0..<k * ?n])) (Some i)"
    by (simp add: choose_loops_eval [OF assms(1)] comp_def)
  then have "count_list (fst (choose_loops (k * ?n) p)) (Some i) = k"
    unfolding inj rotation_fair [OF assms(2)] .
  moreover have "0 < ?n" using assms(2) by linarith
  then have "\<forall>x \<in> set (fst (choose_loops m p)). \<exists>j. x = Some j \<and> j < ?n"
    by (auto simp: choose_loops_eval [OF assms(1)] intro!: mod_less_divisor)
  moreover have "snd (choose_loops (k * ?n) p) = p"
    using assms(1) by (simp add: choose_loops_eval [OF assms(1)] io_ok_def)
  ultimately show ?thesis by blast
qed

definition demo_io :: IOThreadPool where
  "demo_io = \<lparr>loops = [demo_loop, demo_loop, demo_loop], threads = [], next_loop_idx = 1, main_reactor_func = False\<rparr>"

lemma round_robin_fair_witness: "count_list (fst (choose_loops (2 * 3) demo_io)) (Some 0) = 2"
  using round_robin_fair [of demo_io 0 2] by (simp add: demo_io_def io_ok_def)

end
