(* ===== verification/Net_Socket.thy ===== *)
theory Net_Socket
  imports Sys
begin

text \<open>
  \<open>net::Socket\<close> (\<open>src/net/socket.h\<close>, \<open>src/net/socket.cpp\<close>): an owned file descriptor. A
  method that changes the object is a program over the object and the system state; a
  \<open>const\<close> method takes the object as an argument. Exceptions run the destructors of the
  locals that are alive.
\<close>

section \<open>State and operations\<close>

record Socket =
  sock_fd :: int

definition Socket_default :: Socket where
  "Socket_default = \<lparr>sock_fd = - 1\<rparr>"

definition Socket_of :: "int \<Rightarrow> Socket" where
  "Socket_of fd = \<lparr>sock_fd = fd\<rparr>"

definition Socket_GetFd :: "Socket \<Rightarrow> int" where
  "Socket_GetFd s = sock_fd s"

definition Socket_IsValid :: "Socket \<Rightarrow> bool" where
  "Socket_IsValid s = (sock_fd s \<noteq> - 1)"

definition Socket_CheckError :: "'k os \<Rightarrow> int \<Rightarrow> string \<Rightarrow> (('k, 'z) sysw_scheme, unit) prog" where
  "Socket_CheckError os r operation =
     (if r = - 1
      then bnd (gets errno) (\<lambda>e.
        let msg = operation @ '' failed: '' @ os_strerror os e
        in andthen (LOG ERROR msg) (throw (Runtime_error msg)))
      else ret ())"

definition Socket_Close :: "'k os \<Rightarrow> (Socket \<times> ('k, 'z) sysw_scheme, unit) prog" where
  "Socket_Close os = bnd (gets (\<lambda>(s, w). sock_fd s)) (\<lambda>fd.
     if fd \<noteq> - 1
     then andthen (on_snd (LOG INFO (''Socket closed: fd='' @ to_string fd)))
         (bnd (on_snd (syscall os (Sys_close fd))) (\<lambda>_.
           modify (\<lambda>(s, w). (s\<lparr>sock_fd := - 1\<rparr>, w))))
     else ret ())"

definition Socket_delete :: "'k os \<Rightarrow> Socket \<times> ('k, 'z) sysw_scheme \<Rightarrow> Socket \<times> ('k, 'z) sysw_scheme" where
  "Socket_delete os sw = snd (Socket_Close os sw)"

text \<open>The move constructor gives the new object and what is left of the old one.\<close>

definition Socket_move :: "Socket \<Rightarrow> Socket \<times> Socket" where
  "Socket_move other = (\<lparr>sock_fd = sock_fd other\<rparr>, other\<lparr>sock_fd := - 1\<rparr>)"

text \<open>Move assignment; \<open>same\<close> is the test \<open>this == &other\<close>. The state is the two objects.\<close>

definition Socket_move_assign ::
  "'k os \<Rightarrow> bool \<Rightarrow> Socket \<Rightarrow> (Socket \<times> ('k, 'z) sysw_scheme) \<Rightarrow> Socket \<times> (Socket \<times> ('k, 'z) sysw_scheme)" where
  "Socket_move_assign os same other sw =
     (if \<not> same
      then let (this, w) = snd (Socket_Close os sw)
           in (other\<lparr>sock_fd := - 1\<rparr>, (this\<lparr>sock_fd := sock_fd other\<rparr>, w))
      else (other, sw))"

definition Socket_Release :: "Socket \<Rightarrow> int \<times> Socket" where
  "Socket_Release s = (sock_fd s, s\<lparr>sock_fd := - 1\<rparr>)"

definition Socket_SetNonBlocking :: "'k os \<Rightarrow> Socket \<Rightarrow> (('k, 'z) sysw_scheme, unit) prog" where
  "Socket_SetNonBlocking os s = bnd (syscall os (Sys_getfl (sock_fd s))) (\<lambda>r.
     andthen (Socket_CheckError os (rp_ret r) ''fcntl(F_GETFL)'')
       (bnd (syscall os (Sys_setfl (sock_fd s) (rp_ret r OR O_NONBLOCK))) (\<lambda>r'.
          Socket_CheckError os (rp_ret r') ''fcntl(F_SETFL)'')))"

definition Socket_SetReuseAddr :: "'k os \<Rightarrow> Socket \<Rightarrow> (('k, 'z) sysw_scheme, unit) prog" where
  "Socket_SetReuseAddr os s = bnd (syscall os (Sys_setsockopt (sock_fd s) SO_REUSEADDR)) (\<lambda>r.
     Socket_CheckError os (rp_ret r) ''setsockopt(SO_REUSEADDR)'')"

definition Socket_SetReusePort :: "'k os \<Rightarrow> Socket \<Rightarrow> (('k, 'z) sysw_scheme, unit) prog" where
  "Socket_SetReusePort os s = bnd (syscall os (Sys_setsockopt (sock_fd s) SO_REUSEPORT)) (\<lambda>r.
     Socket_CheckError os (rp_ret r) ''setsockopt(SO_REUSEPORT)'')"

definition Socket_SetTcpNoDelay :: "'k os \<Rightarrow> Socket \<Rightarrow> (('k, 'z) sysw_scheme, unit) prog" where
  "Socket_SetTcpNoDelay os s = bnd (syscall os (Sys_setsockopt (sock_fd s) TCP_NODELAY)) (\<lambda>r.
     Socket_CheckError os (rp_ret r) ''setsockopt(TCP_NODELAY)'')"

definition Socket_Create :: "'k os \<Rightarrow> (Socket \<times> ('k, 'z) sysw_scheme, unit) prog" where
  "Socket_Create os = bnd (on_snd (syscall os Sys_socket)) (\<lambda>r.
     andthen (modify (\<lambda>(s, w). (s\<lparr>sock_fd := rp_ret r\<rparr>, w)))
    (andthen (on_snd (Socket_CheckError os (rp_ret r) ''socket''))
    (bnd (gets fst) (\<lambda>s.
     andthen (on_snd (Socket_SetNonBlocking os s))
    (andthen (on_snd (Socket_SetReuseAddr os s))
    (andthen (on_snd (Socket_SetReusePort os s))
    (andthen (on_snd (Socket_SetTcpNoDelay os s))
             (on_snd (LOG INFO (''Socket created: fd='' @ to_string (sock_fd s)))))))))))"

definition Socket_Bind :: "'k os \<Rightarrow> Socket \<Rightarrow> string \<Rightarrow> 16 word \<Rightarrow> (('k, 'z) sysw_scheme, unit) prog" where
  "Socket_Bind os s ip port =
     (case (if ip = [] \<or> ip = ''0.0.0.0'' then Some 0 else os_pton os ip) of
        None \<Rightarrow> andthen (LOG ERROR (''Invalid IP address: '' @ ip)) (throw (Runtime_error ''Invalid IP address''))
      | Some a \<Rightarrow>
          bnd (syscall os (Sys_bind (sock_fd s) \<lparr>sin_port = htons port, sin_addr = a\<rparr>)) (\<lambda>r.
          andthen (Socket_CheckError os (rp_ret r) ''bind'')
            (LOG INFO (''Socket bound: '' @ (if ip = [] then ''0.0.0.0'' else ip) @ '':'' @ to_string (uint port)))))"

definition Socket_Listen :: "'k os \<Rightarrow> Socket \<Rightarrow> int \<Rightarrow> (('k, 'z) sysw_scheme, unit) prog" where
  "Socket_Listen os s backlog = bnd (syscall os (Sys_listen (sock_fd s) backlog)) (\<lambda>r.
     andthen (Socket_CheckError os (rp_ret r) ''listen'')
       (LOG INFO (''Socket listening: backlog='' @ to_string backlog)))"

text \<open>The part of \<open>Accept\<close> after the call, with the new socket as its local.\<close>

definition accept_setup :: "'k os \<Rightarrow> int \<Rightarrow> sockaddr_in \<Rightarrow> (('k, 'z) sysw_scheme, Socket) prog" where
  "accept_setup os client_fd addr =
     (let client_socket = Socket_of client_fd
      in on_throw
           (andthen (Socket_SetNonBlocking os client_socket)
           (andthen (Socket_SetTcpNoDelay os client_socket)
           (andthen (LOG INFO (''New connection accepted: '' @ os_ntop os (sin_addr addr) @ '':'' @
                       to_string (uint (ntohs (sin_port addr))) @ '', fd='' @ to_string client_fd))
                    (ret client_socket))))
           (\<lambda>w. snd (Socket_delete os (client_socket, w))))"

definition Socket_Accept :: "'k os \<Rightarrow> Socket \<Rightarrow> (('k, 'z) sysw_scheme, Socket) prog" where
  "Socket_Accept os s = bnd (syscall os (Sys_accept (sock_fd s))) (\<lambda>r.
     if rp_ret r = - 1
     then bnd (gets errno) (\<lambda>e.
       if e = EAGAIN \<or> e = EWOULDBLOCK then ret (Socket_of (- 1))
       else andthen (Socket_CheckError os (rp_ret r) ''accept'') (accept_setup os (rp_ret r) (rp_addr r)))
     else accept_setup os (rp_ret r) (rp_addr r))"

definition Socket_Connect :: "'k os \<Rightarrow> Socket \<Rightarrow> string \<Rightarrow> 16 word \<Rightarrow> (('k, 'z) sysw_scheme, unit) prog" where
  "Socket_Connect os s ip port =
     (case os_pton os ip of
        None \<Rightarrow> andthen (LOG ERROR (''Invalid IP address: '' @ ip)) (throw (Runtime_error ''Invalid IP address''))
      | Some a \<Rightarrow>
          bnd (syscall os (Sys_connect (sock_fd s) \<lparr>sin_port = htons port, sin_addr = a\<rparr>)) (\<lambda>r.
          bnd (gets errno) (\<lambda>e.
          andthen (doif (rp_ret r = - 1 \<and> e \<noteq> EINPROGRESS) (Socket_CheckError os (rp_ret r) ''connect''))
            (LOG INFO (''Socket connected to: '' @ ip @ '':'' @ to_string (uint port))))))"

definition Socket_Send :: "'k os \<Rightarrow> Socket \<Rightarrow> byte list \<Rightarrow> (('k, 'z) sysw_scheme, int) prog" where
  "Socket_Send os s bytes = bnd (syscall os (Sys_send (sock_fd s) bytes)) (\<lambda>r.
     if rp_ret r = - 1
     then bnd (gets errno) (\<lambda>e.
       if e = EAGAIN \<or> e = EWOULDBLOCK then ret 0
       else andthen (Socket_CheckError os (rp_ret r) ''send'') (ret (rp_ret r)))
     else ret (rp_ret r))"

text \<open>The received bytes are part of the result.\<close>

definition Socket_Recv :: "'k os \<Rightarrow> Socket \<Rightarrow> size_t \<Rightarrow> (('k, 'z) sysw_scheme, int \<times> byte list) prog" where
  "Socket_Recv os s len = bnd (syscall os (Sys_recv (sock_fd s) len)) (\<lambda>r.
     if rp_ret r = - 1
     then bnd (gets errno) (\<lambda>e.
       if e = EAGAIN \<or> e = EWOULDBLOCK then ret (0, [])
       else andthen (Socket_CheckError os (rp_ret r) ''recv'') (ret (rp_ret r, rp_bytes r)))
     else ret (rp_ret r, rp_bytes r))"

definition Socket_GetPeerIp :: "'k os \<Rightarrow> Socket \<Rightarrow> (('k, 'z) sysw_scheme, string) prog" where
  "Socket_GetPeerIp os s = bnd (syscall os (Sys_getpeername (sock_fd s))) (\<lambda>r.
     if rp_ret r = 0 then ret (os_ntop os (sin_addr (rp_addr r))) else ret ''0.0.0.0'')"

definition Socket_GetPeerPort :: "'k os \<Rightarrow> Socket \<Rightarrow> (('k, 'z) sysw_scheme, 16 word) prog" where
  "Socket_GetPeerPort os s = bnd (syscall os (Sys_getpeername (sock_fd s))) (\<lambda>r.
     if rp_ret r = 0 then ret (ntohs (sin_port (rp_addr r))) else ret 0)"

definition Socket_GetLocalIp :: "'k os \<Rightarrow> Socket \<Rightarrow> (('k, 'z) sysw_scheme, string) prog" where
  "Socket_GetLocalIp os s = bnd (syscall os (Sys_getsockname (sock_fd s))) (\<lambda>r.
     if rp_ret r = 0 then ret (os_ntop os (sin_addr (rp_addr r))) else ret ''0.0.0.0'')"

definition Socket_GetLocalPort :: "'k os \<Rightarrow> Socket \<Rightarrow> (('k, 'z) sysw_scheme, 16 word) prog" where
  "Socket_GetLocalPort os s = bnd (syscall os (Sys_getsockname (sock_fd s))) (\<lambda>r.
     if rp_ret r = 0 then ret (ntohs (sin_port (rp_addr r))) else ret 0)"

section \<open>Lemmas\<close>

lemma keeps_socket [keeps_intros]:
  "keeps (sys_only w0) (Socket_CheckError os r what)" "keeps (sys_only w0) (Socket_SetNonBlocking os k)"
  "keeps (sys_only w0) (Socket_SetTcpNoDelay os k)" "keeps (sys_only w0) (Socket_SetReuseAddr os k)"
  "keeps (sys_only w0) (Socket_SetReusePort os k)" "keeps (sys_only w0) (Socket_GetPeerIp os k)"
  "keeps (sys_only w0) (Socket_GetPeerPort os k)" "keeps (sys_only w0) (Socket_Bind os k ip port)"
  "keeps (sys_only w0) (Socket_Listen os k backlog)"
  unfolding Socket_SetNonBlocking_def Socket_SetTcpNoDelay_def Socket_SetReuseAddr_def Socket_SetReusePort_def
    Socket_GetPeerIp_def Socket_GetPeerPort_def Socket_CheckError_def Socket_Bind_def Socket_Listen_def Let_def
  by (intro keeps_intros)+

lemma Socket_Close_spec:
  obtains w' where "Socket_Close os (k, w) = (Inr (), (k\<lparr>sock_fd := - 1\<rparr>, w'))" "sys_only w w'"
    "calls w' = calls w @ (if sock_fd k = - 1 then [] else [Sys_close (sock_fd k)])"
proof
  let ?w' = "snd (snd (Socket_Close os (k, w)))"
  show "Socket_Close os (k, w) = (Inr (), (k\<lparr>sock_fd := - 1\<rparr>, ?w'))" "sys_only w ?w'"
    "calls ?w' = calls w @ (if sock_fd k = - 1 then [] else [Sys_close (sock_fd k)])"
    by (auto simp: Socket_Close_def prog_simps)
qed

lemma Socket_delete_spec:
  "sys_only w (snd (Socket_delete os (k, w)))"
  "calls (snd (Socket_delete os (k, w))) = calls w @ (if sock_fd k = - 1 then [] else [Sys_close (sock_fd k)])"
  unfolding Socket_delete_def by (rule Socket_Close_spec [of os k w], simp)+

text \<open>The options of a new socket: no call closes a descriptor.\<close>

lemma socket_options_no_close:
  "closes fd (snd (Socket_SetNonBlocking os k w)) = closes fd w"
  "closes fd (snd (Socket_SetTcpNoDelay os k w)) = closes fd w"
  by (simp_all add: Socket_SetNonBlocking_def Socket_SetTcpNoDelay_def Socket_CheckError_def prog_simps closes_def Let_def
      split: sum.splits)

lemma accept_setup_spec:
  fixes w :: "('k, 'z) sysw_scheme"
  assumes "accept_setup os fd addr w = (res, w')" "fd \<noteq> - 1"
  shows "case res of Inr k \<Rightarrow> sock_fd k = fd \<and> closes fd w' = closes fd w | Inl e \<Rightarrow> closes fd w' = closes fd w + 1"
proof -
  let ?k = "Socket_of fd"
  obtain r1 w1 where n: "Socket_SetNonBlocking os ?k w = (r1, w1)" by force
  obtain r2 w2 where t: "Socket_SetTcpNoDelay os ?k w1 = (r2, w2)" by force
  have c: "closes fd w1 = closes fd w" "closes fd w2 = closes fd w1"
    using socket_options_no_close(1) [of fd os ?k w] socket_options_no_close(2) [of fd os ?k w1] n t by simp_all
  have d: "closes fd (snd (Socket_delete os (?k, x))) = closes fd x + 1" for x :: "('k, 'z) sysw_scheme"
    using assms(2) by (simp add: closes_def Socket_delete_spec(2) Socket_of_def)
  show ?thesis
  proof (cases r1)
    case (Inl e)
    then have "res = Inl e" "w' = snd (Socket_delete os (?k, w1))"
      using assms(1) n by (auto simp: accept_setup_def prog_simps Let_def)
    with c d show ?thesis by simp
  next
    case r1: (Inr u)
    show ?thesis
    proof (cases r2)
      case (Inl e)
      then have "res = Inl e" "w' = snd (Socket_delete os (?k, w2))"
        using assms(1) n t r1 by (auto simp: accept_setup_def prog_simps Let_def)
      with c d show ?thesis by simp
    next
      case (Inr v)
      then have "res = Inr ?k" "closes fd w' = closes fd w2"
        using assms(1) n t r1 by (auto simp: accept_setup_def prog_simps Let_def closes_def)
      with c show ?thesis by (simp add: Socket_of_def)
    qed
  qed
qed

section \<open>Properties\<close>

text \<open>
  C15: \<open>Accept\<close> hands over the new descriptor or closes it. Whatever the kernel replies to the
  calls that set the options, a descriptor that \<open>accept\<close> returned is owned by the socket of
  the result and not closed, or an exception is thrown and it has been closed exactly once.
  Without a pending connection the result is an invalid socket; any other failure throws the
  message of the error, and in both cases there is no further call.
\<close>

theorem Accept_owns_descriptor:
  assumes "Socket_Accept os s w = (res, w')" "r = fst (os_call os (kst w) (Sys_accept (sock_fd s)))"
  shows "if rp_ret r = - 1
    then calls w' = calls w @ [Sys_accept (sock_fd s)] \<and>
      res = (if rp_errno r = EAGAIN then Inr (Socket_of (- 1))
             else Inl (Runtime_error (''accept failed: '' @ os_strerror os (rp_errno r))))
    else (case res of
        Inr k \<Rightarrow> sock_fd k = rp_ret r \<and> closes (rp_ret r) w' = closes (rp_ret r) w
      | Inl e \<Rightarrow> closes (rp_ret r) w' = closes (rp_ret r) w + 1)"
proof (cases "rp_ret r = - 1")
  case True
  then show ?thesis
    using assms by (auto simp: Socket_Accept_def prog_simps Socket_CheckError_def Let_def EAGAIN_def EWOULDBLOCK_def)
next
  case False
  let ?w1 = "snd (syscall os (Sys_accept (sock_fd s)) w)"
  have "accept_setup os (rp_ret r) (rp_addr r) ?w1 = (res, w')"
    using assms False by (simp add: Socket_Accept_def bnd_eval syscall_eval)
  from accept_setup_spec [OF this False] show ?thesis
    using False by (simp add: syscall_eval closes_def cong: sum.case_cong)
qed

lemma Accept_owns_descriptor_witness:
  "\<exists>w'. Socket_Accept script_os \<lparr>sock_fd = 5\<rparr> (script_world [reply_of 9 0 [], reply_of (- 1) 22 []]) =
      (Inl (Runtime_error ''fcntl(F_GETFL) failed: error''), w') \<and> closes 9 w' = 1"
proof -
  let ?w = "script_world [reply_of 9 0 [], reply_of (- 1) 22 []]"
  obtain res w' where R: "Socket_Accept script_os \<lparr>sock_fd = 5\<rparr> ?w = (res, w')" by (metis surj_pair)
  have r: "reply_of 9 0 [] = fst (os_call script_os (kst ?w) (Sys_accept (sock_fd \<lparr>sock_fd = 5\<rparr>)))"
    by (simp add: script_world_def)
  have "res = Inl (Runtime_error ''fcntl(F_GETFL) failed: error'')"
    using R by (auto simp: Socket_Accept_def accept_setup_def prog_simps Socket_SetNonBlocking_def Socket_CheckError_def
        script_world_def reply_of_def Let_def Socket_of_def script_os_def)
  with Accept_owns_descriptor [OF R r] R show ?thesis by (simp add: reply_of_def closes_def script_world_def)
qed

end
