(* ===== verification/Net_Server.thy ===== *)
theory Net_Server
  imports Net_IOThreadPool Net_Socket
begin

text \<open>
  \<open>net::Server\<close> (\<open>src/net/server.h\<close>, \<open>src/net/server.cpp\<close>): the main reactor. It builds the
  parts, accepts connections and hands each to an event loop. The state is the singleton
  \<open>Server\<close> and the process state \<open>world\<close>.
\<close>

unbundle bit_operations_syntax

section \<open>State\<close>

record Config =
  cfg_ip :: string
  cfg_port :: "16 word"
  cfg_backlog :: int
  cfg_max_connections :: size_t
  cfg_heartbeat_timeout_ms :: int
  cfg_pool_block_size :: size_t
  cfg_pool_block_count :: size_t
  cfg_log_level :: LogLevel

definition Config_default :: Config where
  "Config_default = \<lparr>cfg_ip = ''0.0.0.0'', cfg_port = 9999, cfg_backlog = 128, cfg_max_connections = 100000,
     cfg_heartbeat_timeout_ms = 60000, cfg_pool_block_size = 4096, cfg_pool_block_count = 10000,
     cfg_log_level = INFO\<rparr>"

text \<open>\<open>logger_level\<close> is the level that \<open>Init\<close> gives to the logger.\<close>

record Server =
  srv_config :: Config
  listen_socket :: "Socket option"
  main_loop :: "EventLoop option"
  io_thread_pool :: "IOThreadPool option"
  srv_memory_pool :: "MemoryPool option"
  srv_running :: bool
  stop_requested :: bool
  signal_fd :: int
  logger_level :: LogLevel

definition Server_default :: Server where
  "Server_default = \<lparr>srv_config = Config_default, listen_socket = None, main_loop = None, io_thread_pool = None,
     srv_memory_pool = None, srv_running = False, stop_requested = False, signal_fd = - 1, logger_level = DEBUG\<rparr>"

text \<open>Running a method of a member through its \<open>unique_ptr\<close>.\<close>

definition on_listen :: "(Socket \<times> ('k, 'z) world_scheme, 'a) prog \<Rightarrow> (Server \<times> ('k, 'z) world_scheme, 'a) prog" where
  "on_listen m = (\<lambda>(s, w). case listen_socket s of
       None \<Rightarrow> (Inl (Undefined_behaviour ''null listen_socket_''), (s, w))
     | Some k \<Rightarrow> (case m (k, w) of (r, (k', w')) \<Rightarrow> (r, (s\<lparr>listen_socket := Some k'\<rparr>, w'))))"

definition on_main :: "(EventLoop \<times> ('k, 'z) world_scheme, 'a) prog \<Rightarrow> (Server \<times> ('k, 'z) world_scheme, 'a) prog" where
  "on_main m = (\<lambda>(s, w). case main_loop s of
       None \<Rightarrow> (Inl (Undefined_behaviour ''null main_loop_''), (s, w))
     | Some el \<Rightarrow> (case m (el, w) of (r, (el', w')) \<Rightarrow> (r, (s\<lparr>main_loop := Some el'\<rparr>, w'))))"

definition on_io :: "(IOThreadPool \<times> ('k, 'z) world_scheme, 'a) prog \<Rightarrow> (Server \<times> ('k, 'z) world_scheme, 'a) prog" where
  "on_io m = (\<lambda>(s, w). case io_thread_pool s of
       None \<Rightarrow> (Inl (Undefined_behaviour ''null io_thread_pool_''), (s, w))
     | Some p \<Rightarrow> (case m (p, w) of (r, (p', w')) \<Rightarrow> (r, (s\<lparr>io_thread_pool := Some p'\<rparr>, w'))))"

text \<open>A \<open>const\<close> use of a member: the program takes its value.\<close>

definition the_listen :: "(Server \<times> 'w, Socket) prog" where
  "the_listen = (\<lambda>(s, w). case listen_socket s of
       None \<Rightarrow> (Inl (Undefined_behaviour ''null listen_socket_''), (s, w)) | Some k \<Rightarrow> (Inr k, (s, w)))"

definition the_main :: "(Server \<times> 'w, EventLoop) prog" where
  "the_main = (\<lambda>(s, w). case main_loop s of
       None \<Rightarrow> (Inl (Undefined_behaviour ''null main_loop_''), (s, w)) | Some el \<Rightarrow> (Inr el, (s, w)))"

definition set_server :: "(Server \<Rightarrow> Server) \<Rightarrow> (Server \<times> 'w, unit) prog" where
  "set_server f = modify (\<lambda>(s, w). (f s, w))"

section \<open>Init\<close>

text \<open>Assigning a new object to a \<open>unique_ptr\<close> destroys the old one.\<close>

definition install_listen :: "'k os \<Rightarrow> (Server \<times> ('k, 'z) world_scheme, unit) prog" where
  "install_listen os = modify (\<lambda>(s, w).
     (s\<lparr>listen_socket := Some Socket_default\<rparr>,
      case listen_socket s of None \<Rightarrow> w | Some old \<Rightarrow> snd (Socket_delete os (old, w))))"

definition install_main :: "'k os \<Rightarrow> EventLoop \<Rightarrow> (Server \<times> ('k, 'z) world_scheme, unit) prog" where
  "install_main os el = modify (\<lambda>(s, w).
     (s\<lparr>main_loop := Some el\<rparr>,
      case main_loop s of None \<Rightarrow> w | Some old \<Rightarrow> snd (snd (EventLoop_delete os (old, w)))))"

definition install_io :: "'k os \<Rightarrow> IOThreadPool \<Rightarrow> (Server \<times> ('k, 'z) world_scheme, unit) prog" where
  "install_io os p = modify (\<lambda>(s, w).
     (s\<lparr>io_thread_pool := Some p\<rparr>,
      case io_thread_pool s of None \<Rightarrow> w | Some old \<Rightarrow> IOThreadPool_delete os (old, w)))"

definition init_banner :: "Config \<Rightarrow> (('k, 'z) sysw_scheme, unit) prog" where
  "init_banner c =
     andthen (LOG INFO ''========================================'')
    (andthen (LOG INFO ''  TCP Server Initializing'')
    (andthen (LOG INFO ''========================================'')
    (andthen (LOG INFO (''Listen IP: '' @ cfg_ip c))
    (andthen (LOG INFO (''Listen Port: '' @ to_string (uint (cfg_port c))))
    (andthen (LOG INFO (''Backlog: '' @ to_string (cfg_backlog c)))
    (andthen (LOG INFO (''Max Connections: '' @ to_string (int (cfg_max_connections c))))
    (andthen (LOG INFO (''Heartbeat Timeout: '' @ to_string (cfg_heartbeat_timeout_ms c) @ ''ms''))
             (LOG INFO ''========================================''))))))))"

definition init_listen :: "'k os \<Rightarrow> Config \<Rightarrow> (Server \<times> ('k, 'z) world_scheme, unit) prog" where
  "init_listen os c =
     andthen (install_listen os)
    (andthen (on_listen (Socket_Create os))
    (bnd the_listen (\<lambda>k.
     andthen (on_snd (Socket_SetNonBlocking os k))
    (andthen (on_snd (Socket_SetReuseAddr os k))
    (andthen (on_snd (Socket_SetReusePort os k))
    (andthen (on_snd (Socket_Bind os k (cfg_ip c) (cfg_port c)))
    (andthen (on_snd (Socket_Listen os k (cfg_backlog c)))
             (on_snd (LOG INFO (''Server listening on '' @ cfg_ip c @ '':'' @ to_string (uint (cfg_port c)))))))))))) "

definition init_main_loop :: "'k os \<Rightarrow> nat \<Rightarrow> (Server \<times> ('k, 'z) world_scheme, unit) prog" where
  "init_main_loop os this_thread = bnd (on_snd (EventLoop_new os this_thread)) (\<lambda>el.
     andthen (install_main os el)
    (andthen (set_server (\<lambda>s. s\<lparr>main_loop := map_option (EventLoop_SetMainReactor True) (main_loop s)\<rparr>))
    (bnd the_main (\<lambda>el. bnd the_listen (\<lambda>k.
     andthen (on_snd (EventLoop_AddFd os el (Socket_GetFd k) (EPOLLIN OR EPOLLET)))
             (on_snd (LOG INFO ''Main EventLoop created in main thread''))))))) "

definition init_pools :: "'k os \<Rightarrow> nat \<Rightarrow> Config \<Rightarrow> (Server \<times> ('k, 'z) world_scheme, unit) prog" where
  "init_pools os this_thread c =
     (case MemoryPool_new (os_new_array os) (cfg_pool_block_size c) (cfg_pool_block_count c) of
        Inl e \<Rightarrow> throw e
      | Inr mp \<Rightarrow>
          andthen (set_server (\<lambda>s. s\<lparr>srv_memory_pool := Some mp\<rparr>))
         (andthen (on_snd (LOG INFO (''Memory pool initialized: block_size='' @ to_string (int (cfg_pool_block_size c)) @
             '', block_count='' @ to_string (int (cfg_pool_block_count c)))))
         (let io_thread_num = (if 1 < os_cpus os then os_cpus os - 1 else 1)
          in andthen (on_snd (LOG INFO (''CPU cores: '' @ to_string (int (os_cpus os)) @ '', IO threads: '' @
                 to_string (int io_thread_num))))
            (bnd (on_snd (IOThreadPool_new os this_thread io_thread_num)) (\<lambda>p.
             andthen (install_io os p)
            (andthen (on_snd (LOG INFO ''IO thread pool initialized''))
            (andthen (on_snd (ConnectionPool_Init os (cfg_max_connections c) (cfg_heartbeat_timeout_ms c)))
            (andthen (on_snd ConnectionPool_StartHeartbeatCheck)
                     (on_snd (LOG INFO ''Connection pool initialized'')))))))))) "

definition init_signals :: "'k os \<Rightarrow> (Server \<times> ('k, 'z) world_scheme, unit) prog" where
  "init_signals os = bnd (on_snd (syscall os Sys_eventfd)) (\<lambda>r.
     andthen (set_server (\<lambda>s. s\<lparr>signal_fd := rp_ret r\<rparr>))
    (andthen (if rp_ret r = - 1 then on_snd (LOG ERROR ''Failed to create eventfd'')
              else bnd the_main (\<lambda>el.
                andthen (on_snd (EventLoop_AddFd os el (rp_ret r) (EPOLLIN OR EPOLLET)))
                        (on_snd (LOG INFO ''Eventfd created for interrupting epoll_wait''))))
    (bnd (on_snd (syscall os (Sys_signal 2))) (\<lambda>_.
     bnd (on_snd (syscall os (Sys_signal 15))) (\<lambda>_.
     andthen (on_snd (LOG INFO ''Signal handlers registered''))
             (on_snd (LOG INFO ''Server initialized successfully'')))))))"

definition Server_Init :: "'k os \<Rightarrow> nat \<Rightarrow> Config \<Rightarrow> (Server \<times> ('k, 'z) world_scheme, unit) prog" where
  "Server_Init os this_thread config = bnd (gets fst) (\<lambda>s.
     if srv_running s then on_snd (LOG WARN ''Server already initialized'')
     else andthen (set_server (\<lambda>s. s\<lparr>srv_config := config, srv_running := False, stop_requested := False,
                     logger_level := cfg_log_level config\<rparr>))
         (andthen (on_snd (init_banner config))
         (andthen (init_listen os config)
         (andthen (init_main_loop os this_thread)
         (andthen (init_pools os this_thread config)
                  (init_signals os))))))"

section \<open>Stop and signals\<close>

text \<open>\<open>listen_socket_->Close(); listen_socket_.reset();\<close>\<close>

definition close_listen :: "'k os \<Rightarrow> (Server \<times> ('k, 'z) world_scheme, unit) prog" where
  "close_listen os = bnd (gets fst) (\<lambda>s.
     doif (listen_socket s \<noteq> None)
       (andthen (on_listen (Socket_Close os))
         (modify (\<lambda>(s, w). (s\<lparr>listen_socket := None\<rparr>,
            case listen_socket s of None \<Rightarrow> w | Some k \<Rightarrow> snd (Socket_delete os (k, w)))))))"

definition Server_Stop :: "'k os \<Rightarrow> (Server \<times> ('k, 'z) world_scheme, unit) prog" where
  "Server_Stop os = bnd (gets fst) (\<lambda>s.
     if \<not> srv_running s then ret ()
     else andthen (on_snd (LOG INFO ''Server stopping...''))
         (andthen (set_server (\<lambda>s. s\<lparr>srv_running := False\<rparr>))
         (andthen (doif (io_thread_pool s \<noteq> None) (on_io (IOThreadPool_Stop os)))
         (andthen (on_snd ConnectionPool_StopHeartbeatCheck)
         (andthen (on_snd (ConnectionPool_Shutdown os))
         (andthen (on_snd (LOG INFO ''Connection pool shutdown''))
         (andthen (doif (signal_fd s \<noteq> - 1)
             (bnd (on_snd (syscall os (Sys_close (signal_fd s)))) (\<lambda>_. set_server (\<lambda>s. s\<lparr>signal_fd := - 1\<rparr>))))
         (andthen (close_listen os)
                  (on_snd (LOG INFO ''Server stopped'')))))))))) "

text \<open>
  The destructor: its body, and then the members are destroyed, in the reverse of the order in
  which the class declares them: the memory pool, the IO threads with their loops, the loop of
  the main reactor and the listening socket. \<open>signal_fd_\<close> is a static number and is left alone.
\<close>

definition destroy_members :: "'k os \<Rightarrow> Server \<Rightarrow> ('k, 'z) world_scheme \<Rightarrow> ('k, 'z) world_scheme" where
  "destroy_members os s w =
     (let w1 = (case io_thread_pool s of None \<Rightarrow> w | Some p \<Rightarrow> IOThreadPool_delete os (p, w));
          w2 = (case main_loop s of None \<Rightarrow> w1 | Some el \<Rightarrow> snd (snd (EventLoop_delete os (el, w1))))
      in case listen_socket s of None \<Rightarrow> w2 | Some k \<Rightarrow> snd (Socket_delete os (k, w2)))"

definition Server_delete :: "'k os \<Rightarrow> (Server \<times> ('k, 'z) world_scheme, unit) prog" where
  "Server_delete os = andthen (Server_Stop os) (modify (\<lambda>(s, w).
     (s\<lparr>srv_memory_pool := None, io_thread_pool := None, main_loop := None, listen_socket := None\<rparr>,
      destroy_members os s w)))"

definition Server_Wait :: "(Server \<times> ('k, 'z) world_scheme, unit) prog" where
  "Server_Wait = ret ()"

definition Server_IsRunning :: "Server \<Rightarrow> bool" where
  "Server_IsRunning s = srv_running s"

definition SignalHandler :: "'k os \<Rightarrow> int \<Rightarrow> (Server \<times> ('k, 'z) world_scheme, unit) prog" where
  "SignalHandler os sig = andthen (on_snd (LOG INFO (''Received signal '' @ to_string sig)))
     (andthen (set_server (\<lambda>s. s\<lparr>stop_requested := True\<rparr>))
     (bnd (gets fst) (\<lambda>s.
        if signal_fd s \<noteq> - 1
        then bnd (on_snd (syscall os (Sys_write_eventfd (signal_fd s)))) (\<lambda>_. ret ())
        else ret ())))"

section \<open>Accepting connections\<close>

text \<open>
  The end of the scope of the local \<open>shared_ptr\<close>: the object is destroyed when the pool has no
  other reference to it.
\<close>

definition drop_conn :: "'k os \<Rightarrow> nat \<Rightarrow> (('k, 'z) world_scheme, unit) prog" where
  "drop_conn os a = bnd (gets get_pool) (\<lambda>t.
     doif (a \<notin> snd ` set t) (on_conn a (Connection_delete os)))"

text \<open>\<open>sub_loop->AddFd(...)\<close> through the pointer, which is an index of the vector.\<close>

definition sub_loop_AddFd :: "'k os \<Rightarrow> nat \<Rightarrow> int \<Rightarrow> 32 word \<Rightarrow> (Server \<times> ('k, 'z) world_scheme, unit) prog" where
  "sub_loop_AddFd os i fd events = bnd (gets fst) (\<lambda>s. case io_thread_pool s of
       None \<Rightarrow> throw (Undefined_behaviour ''null io_thread_pool_'')
     | Some p \<Rightarrow> if i < length (loops p) then on_snd (EventLoop_AddFd os (loops p ! i) fd events)
                 else throw (Undefined_behaviour ''loop index''))"

text \<open>
  From \<open>AddConnection\<close> to the end of the body of the loop: the result is what the local socket
  still owns.
\<close>

definition register_client :: "'k os \<Rightarrow> Socket \<Rightarrow> nat \<Rightarrow> (Server \<times> ('k, 'z) world_scheme, Socket) prog" where
  "register_client os client a =
     bnd (on_snd (ConnectionPool_AddConnection a)) (\<lambda>added.
     if \<not> added
     then andthen (on_snd (LOG WARN ''Connection rejected: max connections reached''))
         (on_snd (\<lambda>w. case Socket_Close os (client, w) of (r, (k, w')) \<Rightarrow>
            (case r of Inl e \<Rightarrow> (Inl e, w') | Inr _ \<Rightarrow> (Inr k, w'))))
     else bnd (on_io GetNextEventLoop) (\<lambda>sub_loop. case sub_loop of
         None \<Rightarrow> andthen (on_snd (LOG ERROR ''No available IO thread''))
           (bnd (on_snd (\<lambda>w. case Socket_Close os (client, w) of (r, (k, w')) \<Rightarrow>
              (case r of Inl e \<Rightarrow> (Inl e, w') | Inr _ \<Rightarrow> (Inr k, w')))) (\<lambda>k.
            bnd (on_snd (ConnectionPool_RemoveConnection os (sock_fd client))) (\<lambda>_. ret k)))
       | Some i \<Rightarrow>
           andthen (sub_loop_AddFd os i (sock_fd client) (EPOLLIN OR EPOLLOUT OR EPOLLET OR EPOLLONESHOT))
          (andthen (on_snd (LOG DEBUG (''Connection '' @ to_string (sock_fd client) @ '' assigned to IO thread'')))
             (ret (snd (Socket_Release client))))))"

text \<open>
  The body of the loop for a valid client socket: first its address and options; then the
  connection, which ends with the local \<open>shared_ptr\<close>. The local socket is destroyed at the
  end of the scope and by an exception.
\<close>

definition prepare_client :: "'k os \<Rightarrow> Socket \<Rightarrow> (('k, 'z) world_scheme, string \<times> 16 word) prog" where
  "prepare_client os client =
     bnd (Socket_GetPeerIp os client) (\<lambda>client_ip.
     bnd (Socket_GetPeerPort os client) (\<lambda>client_port.
     andthen (LOG INFO (''New connection accepted: '' @ client_ip @ '':'' @ to_string (uint client_port) @
         '', fd='' @ to_string (sock_fd client)))
    (andthen (Socket_SetNonBlocking os client)
    (andthen (Socket_SetTcpNoDelay os client)
       (ret (client_ip, client_port))))))"

definition admit_client :: "'k os \<Rightarrow> Socket \<Rightarrow> string \<Rightarrow> 16 word \<Rightarrow> (Server \<times> ('k, 'z) world_scheme, Socket) prog" where
  "admit_client os client client_ip client_port =
     bnd (on_snd (make_conn os (sock_fd client) client_ip client_port)) (\<lambda>a.
     andthen (on_snd (on_conn a (Connection_SetState CONNECTED)))
    (bnd (register_client os client a) (\<lambda>k.
     andthen (on_snd (drop_conn os a)) (ret k))))"

definition accept_client :: "'k os \<Rightarrow> Socket \<Rightarrow> (Server \<times> ('k, 'z) world_scheme, unit) prog" where
  "accept_client os client =
     bnd (on_throw
       (bnd (on_snd (prepare_client os client)) (\<lambda>(client_ip, client_port).
          admit_client os client client_ip client_port))
       (\<lambda>(s, w). (s, snd (Socket_delete os (client, w)))))
     (\<lambda>k. modify (\<lambda>(s, w). (s, snd (Socket_delete os (k, w)))))"

text \<open>One round of the loop; the result says whether it goes on.\<close>

definition accept_round :: "'k os \<Rightarrow> (Server \<times> ('k, 'z) world_scheme, bool) prog" where
  "accept_round os = bnd the_listen (\<lambda>k. bnd (on_snd (Socket_Accept os k)) (\<lambda>client.
     if \<not> Socket_IsValid client
     then bnd (on_snd (gets errno)) (\<lambda>e.
       andthen (doif (\<not> would_block e) (on_snd (LOG ERROR (''Accept error: '' @ os_strerror os e)))) (ret False))
     else andthen (accept_client os client) (ret True)))"

fun HandleAccept :: "'k os \<Rightarrow> nat \<Rightarrow> (Server \<times> ('k, 'z) world_scheme, unit) prog" where
  "HandleAccept os 0 = throw Diverges"
| "HandleAccept os (Suc n) = bnd (accept_round os) (\<lambda>go. if go then HandleAccept os n else ret ())"

section \<open>The main loop\<close>

text \<open>The events of one wait; the event of the signal descriptor ends them.\<close>

fun main_events :: "'k os \<Rightarrow> nat \<Rightarrow> nat list \<Rightarrow> (Server \<times> ('k, 'z) world_scheme, unit) prog" where
  "main_events os n [] = ret ()"
| "main_events os n (i # is) = bnd the_main (\<lambda>el. bnd (gets fst) (\<lambda>s.
     if length (Epoll_GetEvents (EventLoop_GetEpoll el)) \<le> i then throw (Undefined_behaviour ''event index'')
     else let event = Epoll_GetEvents (EventLoop_GetEpoll el) ! i
          in andthen (on_snd (LOG DEBUG (''Main EventLoop: handling event for fd='' @ to_string (ev_fd event))))
            (if ev_fd event = signal_fd s
             then bnd (on_snd (syscall os (Sys_read_eventfd (signal_fd s)))) (\<lambda>_.
               andthen (on_snd (LOG INFO ''Main EventLoop: received stop signal from eventfd''))
                       (set_server (\<lambda>s. s\<lparr>srv_running := False\<rparr>)))
             else bnd the_listen (\<lambda>k.
               andthen (doif (ev_fd event = Socket_GetFd k \<and> ev_events event AND EPOLLIN \<noteq> 0)
                  (andthen (on_snd (LOG DEBUG ''Main EventLoop: accept event'')) (HandleAccept os n)))
                 (main_events os n is)))))"

definition main_round :: "'k os \<Rightarrow> nat \<Rightarrow> (Server \<times> ('k, 'z) world_scheme, bool) prog" where
  "main_round os n = bnd (on_main (on_epoll (Epoll_Wait os (- 1)))) (\<lambda>num_events.
     bnd (on_snd (gets errno)) (\<lambda>e.
     if num_events < 0
     then (if e = EINTR then ret True
           else andthen (on_snd (LOG ERROR (''Epoll wait error: '' @ os_strerror os e))) (ret False))
     else andthen (on_snd (LOG DEBUG (''Main EventLoop: num_events='' @ to_string num_events)))
         (andthen (main_events os n [0..<nat num_events]) (ret True))))"

text \<open>
  The loop of the main reactor; the list has what other threads and signal handlers do before
  each test of the condition, and it ends while the loop still runs.
\<close>

fun main_while :: "'k os \<Rightarrow> nat \<Rightarrow> (Server \<times> ('k, 'z) world_scheme \<Rightarrow> Server \<times> ('k, 'z) world_scheme) list \<Rightarrow>
    (Server \<times> ('k, 'z) world_scheme, unit) prog" where
  "main_while os n [] = ret ()"
| "main_while os n (others # rest) = andthen (modify others) (bnd (gets fst) (\<lambda>s.
     let bye = andthen (on_snd (LOG INFO ''Main EventLoop stopped'')) (Server_Stop os)
     in if srv_running s \<and> \<not> stop_requested s
        then bnd (main_round os n) (\<lambda>go. if go then main_while os n rest else bye)
        else bye))"

definition MainEventLoop :: "'k os \<Rightarrow> nat \<Rightarrow> (Server \<times> ('k, 'z) world_scheme \<Rightarrow> Server \<times> ('k, 'z) world_scheme) list \<Rightarrow>
    (Server \<times> ('k, 'z) world_scheme, unit) prog" where
  "MainEventLoop os n others = andthen (on_snd (LOG INFO ''Main EventLoop started'')) (bnd (gets fst) (\<lambda>s.
     if main_loop s = None then on_snd (LOG ERROR ''Main EventLoop: main_loop_ is null'')
     else if listen_socket s = None then on_snd (LOG ERROR ''Main EventLoop: listen_socket_ is null'')
     else andthen (on_snd (LOG INFO ''Main EventLoop: all pointers are valid''))
         (bnd the_listen (\<lambda>k.
          andthen (on_snd (LOG INFO (''Main EventLoop: listen_fd='' @ to_string (Socket_GetFd k))))
                  (main_while os n others)))))"

definition Server_Start :: "'k os \<Rightarrow> nat \<Rightarrow> (Server \<times> ('k, 'z) world_scheme \<Rightarrow> Server \<times> ('k, 'z) world_scheme) list \<Rightarrow>
    (Server \<times> ('k, 'z) world_scheme, unit) prog" where
  "Server_Start os n others = bnd (gets fst) (\<lambda>s.
     if srv_running s then on_snd (LOG WARN ''Server already running'')
     else andthen (set_server (\<lambda>s. s\<lparr>srv_running := True\<rparr>))
         (andthen (on_snd (LOG INFO ''Server starting...''))
         (andthen (on_io IOThreadPool_Start)
         (andthen (on_snd (LOG INFO ''IO thread pool started''))
         (andthen (on_snd (LOG INFO ''Main EventLoop will run in main thread''))
         (andthen (MainEventLoop os n others)
                  (on_snd (LOG INFO ''Server started''))))))))"

section \<open>Lemmas\<close>

lemma SetState_eval:
  "Connection_SetState st (c, w) = (Inr (), (c\<lparr>conn_state := st\<rparr>,
     w\<lparr>logs := logs w @ [(DEBUG, ''Connection state changed: '' @ conn_name c @ '' -> '' @ state_str st)]\<rparr>))"
  by (simp add: Connection_SetState_def prog_simps conn_name_def)

text \<open>A new connection, \<open>CONNECTED\<close> and not in the pool yet.\<close>

lemma new_client:
  assumes "cp_inv w"
  obtains w2 c where
    "bnd (make_conn os fd ip port) (\<lambda>a. andthen (on_conn a (Connection_SetState CONNECTED)) (ret a)) w = (Inr (next_ref w), w2)"
    "cp_inv w2" "cpool w2 = cpool w" "heap w2 = (heap w)(next_ref w := Some c)" "next_ref w2 = Suc (next_ref w)"
    "calls w2 = calls w" "kst w2 = snd (os_call os (kst w) Sys_clock)" "next_ref w \<notin> snd ` set (get_pool w2)"
    "conn_fd c = fd" "conn_state c = CONNECTED" "conn_ip c = ip" "conn_port c = port" "unread c = []" "unsent c = []"
proof -
  obtain w1 c where m: "make_conn os fd ip port w = (Inr (next_ref w), w1)" "cp_inv w1" "cpool w1 = cpool w"
    "next_ref w1 = Suc (next_ref w)" "calls w1 = calls w" "kst w1 = snd (os_call os (kst w) Sys_clock)"
    and c: "heap w1 = (heap w)(next_ref w := Some c)" "conn_fd c = fd" "unread c = []" "unsent c = []" "conn_ip c = ip" "conn_port c = port"
    by (rule make_conn_spec [OF assms, of os fd ip port]) blast
  have h: "heap w1 (next_ref w) = Some c" by (simp add: c(1))
  have "conn_keeps (c, w1) (snd (Connection_SetState CONNECTED (c, w1)))"
    by (auto simp: SetState_eval closes_def intro!: conn_keepsI)
  note k = on_conn_keeps [where m = "Connection_SetState CONNECTED", OF m(2) h this]
  let ?w2 = "snd (on_conn (next_ref w) (Connection_SetState CONNECTED) w1)"
  have "(k, next_ref w) \<notin> set (get_pool w)" for k
    using assms unfolding cp_inv_def by fastforce
  then have notin: "next_ref w \<notin> snd ` set (get_pool w)" by force
  show ?thesis
  proof (rule that [of ?w2 "c\<lparr>conn_state := CONNECTED\<rparr>"])
    show "bnd (make_conn os fd ip port) (\<lambda>a. andthen (on_conn a (Connection_SetState CONNECTED)) (ret a)) w = (Inr (next_ref w), ?w2)"
      using m(1) k(2) by (cases "on_conn (next_ref w) (Connection_SetState CONNECTED) w1") (simp add: prog_simps SetState_eval)
    show "next_ref w \<notin> snd ` set (get_pool ?w2)" using notin k(3) m(3) by (simp add: get_pool_def)
  qed (use k m c in \<open>simp_all add: SetState_eval\<close>)
qed

lemma prepare_client_sys_only: "prepare_client os client w = (r, w1) \<Longrightarrow> sys_only w w1"
proof -
  have "keeps (sys_only w) (prepare_client os client)"
    unfolding prepare_client_def by (intro keeps_intros)
  then show "prepare_client os client w = (r, w1) \<Longrightarrow> sys_only w w1"
    using keepsD [of "sys_only w" "prepare_client os client" w r w1] by simp
qed

text \<open>Both parts of \<open>accept_client\<close>, with the destructors of the locals.\<close>

lemma accept_client_run:
  assumes "prepare_client os client w = (Inr (ip, port), w1)"
    "admit_client os client ip port (s, w1) = (Inr k, (s', w2))"
  shows "accept_client os client (s, w) = (Inr (), (s', snd (Socket_delete os (k, w2))))"
  using assms by (simp add: accept_client_def prog_simps)

lemma AddFd_eval:
  assumes "0 \<le> rp_ret (fst (os_call os (kst w) (Sys_epoll_ctl (epoll_fd (el_epoll el)) EPOLL_CTL_ADD fd ev)))"
  obtains w' where "EventLoop_AddFd os el fd ev w = (Inr (), w')" "sys_only w w'"
    "calls w' = calls w @ [Sys_epoll_ctl (epoll_fd (el_epoll el)) EPOLL_CTL_ADD fd ev]"
proof -
  let ?w' = "snd (EventLoop_AddFd os el fd ev w)"
  have "EventLoop_AddFd os el fd ev w = (Inr (), ?w')" "sys_only w ?w'"
    "calls ?w' = calls w @ [Sys_epoll_ctl (epoll_fd (el_epoll el)) EPOLL_CTL_ADD fd ev]"
    using assms by (simp_all add: EventLoop_AddFd_def Epoll_AddFd_def Epoll_CheckError_def prog_simps)
  then show ?thesis by (rule that)
qed

lemma admit_client_eval:
  assumes "bnd (make_conn os (sock_fd client) ip port) (\<lambda>a. andthen (on_conn a (Connection_SetState CONNECTED)) (ret a)) w = (Inr a, w2)"
  shows "admit_client os client ip port (s, w) =
    bnd (register_client os client a) (\<lambda>k. andthen (on_snd (drop_conn os a)) (ret k)) (s, w2)"
proof -
  obtain r w1 where m: "make_conn os (sock_fd client) ip port w = (r, w1)" by force
  obtain b where b: "r = Inr b" using assms m by (cases r) (simp_all add: prog_simps)
  obtain r' w1' where c: "on_conn b (Connection_SetState CONNECTED) w1 = (r', w1')" by force
  show ?thesis
    using assms m b c by (cases r') (simp_all add: admit_client_def bnd_eval andthen_eval on_snd_eval ret_eval)
qed

lemma Server_Stop_idle: "\<not> srv_running s \<Longrightarrow> Server_Stop os (s, w) = (Inr (), (s, w))"
  by (simp add: Server_Stop_def prog_simps)

text \<open>The descriptors that the members own, and what the destruction of the members does.\<close>

definition member_fds :: "Server \<Rightarrow> int list" where
  "member_fds s = (case io_thread_pool s of None \<Rightarrow> [] | Some p \<Rightarrow> loop_fds (loops p)) @
     (case main_loop s of None \<Rightarrow> [] | Some el \<Rightarrow> [epoll_fd (el_epoll el)]) @
     (case listen_socket s of None \<Rightarrow> [] | Some k \<Rightarrow> [sock_fd k])"

lemma destroy_members_spec:
  "sys_only w (destroy_members os s w)"
  "fd \<noteq> - 1 \<Longrightarrow> closes fd (destroy_members os s w) = closes fd w + count_list (member_fds s) fd"
proof -
  define w1 where "w1 = (case io_thread_pool s of None \<Rightarrow> w | Some p \<Rightarrow> IOThreadPool_delete os (p, w))"
  define w2 where "w2 = (case main_loop s of None \<Rightarrow> w1 | Some el \<Rightarrow> snd (snd (EventLoop_delete os (el, w1))))"
  have eq: "destroy_members os s w = (case listen_socket s of None \<Rightarrow> w2 | Some k \<Rightarrow> snd (Socket_delete os (k, w2)))"
    unfolding destroy_members_def w2_def w1_def Let_def ..
  have "sys_only w w1" by (simp add: w1_def IOThreadPool_delete_spec(1) split: option.split)
  moreover have "sys_only w1 w2" by (simp add: w2_def EventLoop_delete_spec(1) split: option.split)
  moreover have "sys_only w2 (destroy_members os s w)" by (simp add: eq Socket_delete_spec(1) split: option.split)
  ultimately show "sys_only w (destroy_members os s w)" using sys_only_trans by blast
  assume fd: "fd \<noteq> - 1"
  have "closes fd w1 = closes fd w + count_list (case io_thread_pool s of None \<Rightarrow> [] | Some p \<Rightarrow> loop_fds (loops p)) fd"
    using fd by (simp add: w1_def IOThreadPool_delete_spec(2) split: option.split)
  moreover have "closes fd w2 = closes fd w1 + count_list (case main_loop s of None \<Rightarrow> [] | Some el \<Rightarrow> [epoll_fd (el_epoll el)]) fd"
    using fd by (simp add: w2_def EventLoop_delete_spec(2) split: option.split)
  moreover have "closes fd (destroy_members os s w) = closes fd w2 +
      count_list (case listen_socket s of None \<Rightarrow> [] | Some k \<Rightarrow> [sock_fd k]) fd"
    using fd by (auto simp: eq closes_def Socket_delete_spec(2) split: option.split)
  ultimately show "closes fd (destroy_members os s w) = closes fd w + count_list (member_fds s) fd"
    by (simp add: member_fds_def count_list_append)
qed

section \<open>Properties\<close>

text \<open>
  C6: A new client, when the pool has room and the kernel accepts the registration: the
  connection is in the pool under its descriptor, \<open>CONNECTED\<close>, with the peer's address and
  empty buffers; the descriptor is registered, edge triggered and one shot, with the next
  event loop of the round robin, which then moves on; the descriptor is not closed by any
  destructor; all other connections are untouched.
\<close>

theorem accept_registers_client:
  assumes "cp_inv w" "io_thread_pool s = Some p" "io_ok p" "prepare_client os client w = (Inr (ip, port), w1)"
    "can_add w (sock_fd client)"
    "0 \<le> rp_ret (fst (os_call os (snd (os_call os (kst w1) Sys_clock))
       (Sys_epoll_ctl (epoll_fd (el_epoll (loops p ! next_loop_idx p))) EPOLL_CTL_ADD (sock_fd client)
         (EPOLLIN OR EPOLLOUT OR EPOLLET OR EPOLLONESHOT))))"
  shows "\<exists>w' c. accept_client os client (s, w) =
      (Inr (), (s\<lparr>io_thread_pool := Some (p\<lparr>next_loop_idx := Suc (next_loop_idx p) mod length (loops p)\<rparr>)\<rparr>, w')) \<and>
    cp_inv w' \<and> tbl_find (get_pool w') = (tbl_find (get_pool w))(sock_fd client \<mapsto> next_ref w) \<and>
    heap w' = (heap w)(next_ref w \<mapsto> c) \<and> conn_fd c = sock_fd client \<and> conn_state c = CONNECTED \<and>
    conn_ip c = ip \<and> conn_port c = port \<and> unread c = [] \<and> unsent c = [] \<and>
    calls w' = calls w1 @ [Sys_epoll_ctl (epoll_fd (el_epoll (loops p ! next_loop_idx p))) EPOLL_CTL_ADD (sock_fd client)
         (EPOLLIN OR EPOLLOUT OR EPOLLET OR EPOLLONESHOT)]"
proof -
  let ?ev = "EPOLLIN OR EPOLLOUT OR EPOLLET OR EPOLLONESHOT" and ?el = "loops p ! next_loop_idx p" and ?fd = "sock_fd client"
  let ?s' = "s\<lparr>io_thread_pool := Some (p\<lparr>next_loop_idx := Suc (next_loop_idx p) mod length (loops p)\<rparr>)\<rparr>"
  have so1: "sys_only w w1" by (rule prepare_client_sys_only [OF assms(4)])
  have inv1: "cp_inv w1" by (rule cp_inv_sys_only [OF assms(1) so1])
  obtain w2 c where new: "bnd (make_conn os ?fd ip port) (\<lambda>a. andthen (on_conn a (Connection_SetState CONNECTED)) (ret a)) w1 = (Inr (next_ref w), w2)"
    and w2: "cp_inv w2" "cpool w2 = cpool w" "heap w2 = (heap w)(next_ref w := Some c)" "calls w2 = calls w1"
      "kst w2 = snd (os_call os (kst w1) Sys_clock)" "next_ref w \<notin> snd ` set (get_pool w2)"
    and c: "conn_fd c = ?fd" "conn_state c = CONNECTED" "conn_ip c = ip" "conn_port c = port" "unread c = []" "unsent c = []"
    by (rule new_client [OF inv1, of os ?fd ip port]) (use so1 in simp)
  have h2: "heap w2 (next_ref w) = Some c" by (simp add: w2(3))
  have can: "can_add w2 (conn_fd c)" using assms(5) w2(2) by (simp add: can_add_def get_pool_def c(1))
  have pool2: "get_pool w2 = get_pool w" by (simp add: get_pool_def w2(2))
  obtain w3 where add: "ConnectionPool_AddConnection (next_ref w) w2 = (Inr True, w3)" and w3: "cp_inv w3" "heap w3 = heap w2"
    "cpool w3 = (cpool w2)\<lparr>connections := tbl_put ?fd (next_ref w) (get_pool w)\<rparr>" "calls w3 = calls w2" "kst w3 = kst w2"
    by (rule AddConnection_added [OF w2(1) h2 w2(6) can]) (use c(1) pool2 in simp)
  obtain w4 where fd: "EventLoop_AddFd os ?el ?fd ?ev w3 = (Inr (), w4)" "sys_only w3 w4"
    "calls w4 = calls w3 @ [Sys_epoll_ctl (epoll_fd (el_epoll ?el)) EPOLL_CTL_ADD ?fd ?ev]"
    by (rule AddFd_eval [where w = w3 and os = os and el = ?el and fd = ?fd and ev = ?ev])
       (use assms(6) w2(5) w3(5) in simp_all)
  let ?w5 = "w4\<lparr>logs := logs w4 @ [(DEBUG, ''Connection '' @ to_string ?fd @ '' assigned to IO thread'')]\<rparr>"
  have lt: "next_loop_idx p < length (loops p)" using assms(3) by (simp add: io_ok_def)
  have reg: "register_client os client (next_ref w) (s, w2) = (Inr (client\<lparr>sock_fd := - 1\<rparr>), (?s', ?w5))"
    using add fd(1) assms(2) lt GetNextEventLoop_eval [OF assms(3), of w3]
    by (simp add: register_client_def sub_loop_AddFd_def on_io_def prog_simps Socket_Release_def)
  have pool5: "get_pool ?w5 = tbl_put ?fd (next_ref w) (get_pool w)" using fd(2) w3(3) by (simp add: get_pool_def)
  have "next_ref w \<in> snd ` set (get_pool ?w5)" unfolding pool5 by (simp add: tbl_put_def)
  then have "admit_client os client ip port (s, w1) = (Inr (client\<lparr>sock_fd := - 1\<rparr>), (?s', ?w5))"
    using admit_client_eval [OF new, of s] reg by (simp add: bnd_eval andthen_eval on_snd_eval ret_eval drop_conn_def gets_eval doif_eval)
  moreover have "snd (Socket_delete os (client\<lparr>sock_fd := - 1\<rparr>, ?w5)) = ?w5"
    by (simp add: Socket_delete_def Socket_Close_def prog_simps)
  ultimately have run: "accept_client os client (s, w) = (Inr (), (?s', ?w5))"
    using accept_client_run [OF assms(4)] by metis
  have ok: "tbl_ok (get_pool w)" using assms(1) by (simp add: cp_inv_def)
  have "cp_inv ?w5" using cp_inv_sys_only [OF w3(1) fd(2)] by simp
  moreover have "tbl_find (get_pool ?w5) = (tbl_find (get_pool w))(?fd \<mapsto> next_ref w)"
    unfolding pool5 by (rule tb.find_put [OF ok])
  moreover have "heap ?w5 = (heap w)(next_ref w \<mapsto> c)" using fd(2) w3(2) w2(3) by simp
  moreover have "calls ?w5 = calls w1 @ [Sys_epoll_ctl (epoll_fd (el_epoll ?el)) EPOLL_CTL_ADD ?fd ?ev]"
    using fd(3) w3(4) w2(4) by simp
  ultimately show ?thesis using run c by blast
qed

text \<open>A server with three event loops; the kernel answers every call with zero.\<close>

definition demo_server :: Server where
  "demo_server = Server_default\<lparr>io_thread_pool := Some demo_io, listen_socket := Some \<lparr>sock_fd = 5\<rparr>,
     main_loop := Some demo_loop, srv_running := True, signal_fd := 6\<rparr>"

definition zero_os :: "reply list os" where
  "zero_os = script_os\<lparr>os_call := \<lambda>k c. (reply_of 0 0 [], k)\<rparr>"

lemma demo_prepare:
  "\<exists>w1. prepare_client zero_os \<lparr>sock_fd = 9\<rparr> w = (Inr (''0.0.0.0'', 0), w1) \<and> sys_only w w1"
proof -
  have "fst (prepare_client zero_os \<lparr>sock_fd = 9\<rparr> w) = Inr (''0.0.0.0'', 0)"
    by (simp add: prepare_client_def Socket_GetPeerIp_def Socket_GetPeerPort_def Socket_SetNonBlocking_def
        Socket_SetTcpNoDelay_def Socket_CheckError_def prog_simps zero_os_def reply_of_def no_addr_def ntohs_def script_os_def)
  then show ?thesis using prepare_client_sys_only by (metis prod.collapse)
qed

lemma accept_registers_client_witness:
  "\<exists>w'. accept_client zero_os \<lparr>sock_fd = 9\<rparr> (demo_server, demo_pooled []) =
      (Inr (), (demo_server\<lparr>io_thread_pool := Some (demo_io\<lparr>next_loop_idx := 2\<rparr>)\<rparr>, w')) \<and>
    tbl_find (get_pool w') 9 = Some 1"
proof -
  obtain w1 where w1: "prepare_client zero_os \<lparr>sock_fd = 9\<rparr> (demo_pooled []) = (Inr (''0.0.0.0'', 0), w1)"
    using demo_prepare by blast
  have io: "io_thread_pool demo_server = Some demo_io" "io_ok demo_io"
    by (simp_all add: demo_server_def demo_io_def io_ok_def)
  have can: "can_add (demo_pooled []) (sock_fd \<lparr>sock_fd = 9\<rparr>)"
    by (simp add: can_add_def demo_pooled_inv tbl_find_def)
  have ctl: "0 \<le> rp_ret (fst (os_call zero_os k c))" for k c by (simp add: zero_os_def reply_of_def)
  have "next_ref (demo_pooled []) = 1" by (simp add: demo_pooled_def)
  then show ?thesis
    using accept_registers_client [OF demo_pooled_inv(1) io w1 can ctl]
    by (auto simp: demo_io_def numeral_2_eq_2)
qed

text \<open>
  C20: A client that the pool refuses (it is full, not running, or has an entry for the
  descriptor) is closed twice. The pool and the other connections stay as they are, but
  \<open>close(fd)\<close> is called by \<open>client_socket.Close()\<close> and again by the destructor of the
  \<open>Connection\<close>, which owns the same descriptor. Between the two calls another thread can be given
  the same number by the kernel, and then loses its descriptor.
\<close>

theorem rejected_client_closed_twice:
  assumes "cp_inv w" "prepare_client os client w = (Inr (ip, port), w1)" "\<not> can_add w (sock_fd client)"
    "sock_fd client \<noteq> - 1"
  shows "\<exists>w'. accept_client os client (s, w) = (Inr (), (s, w')) \<and> get_pool w' = get_pool w \<and>
    calls w' = calls w1 @ [Sys_close (sock_fd client), Sys_close (sock_fd client)]"
proof -
  let ?fd = "sock_fd client"
  have so1: "sys_only w w1" by (rule prepare_client_sys_only [OF assms(2)])
  have inv1: "cp_inv w1" by (rule cp_inv_sys_only [OF assms(1) so1])
  obtain w2 c where new: "bnd (make_conn os ?fd ip port) (\<lambda>a. andthen (on_conn a (Connection_SetState CONNECTED)) (ret a)) w1 = (Inr (next_ref w), w2)"
    and w2: "cp_inv w2" "cpool w2 = cpool w" "heap w2 (next_ref w) = Some c" "calls w2 = calls w1"
      "next_ref w \<notin> snd ` set (get_pool w2)"
    and c: "conn_fd c = ?fd" "conn_state c = CONNECTED"
    by (rule new_client [OF inv1, of os ?fd ip port]) (use so1 in simp)
  have "\<not> can_add w2 (conn_fd c)" using assms(3) w2(2) by (simp add: can_add_def get_pool_def c(1))
  then obtain w3 where add: "ConnectionPool_AddConnection (next_ref w) w2 = (Inr False, w3)" and w3: "sys_only w2 w3" "calls w3 = calls w2"
    by (rule AddConnection_refused [OF w2(3)]) blast
  let ?w3 = "w3\<lparr>logs := logs w3 @ [(WARN, ''Connection rejected: max connections reached'')]\<rparr>"
  obtain w4 where cl: "Socket_Close os (client, ?w3) = (Inr (), (client\<lparr>sock_fd := - 1\<rparr>, w4))" "sys_only ?w3 w4"
    "calls w4 = calls ?w3 @ (if ?fd = - 1 then [] else [Sys_close ?fd])"
    by (rule Socket_Close_spec)
  have reg: "register_client os client (next_ref w) (s, w2) = (Inr (client\<lparr>sock_fd := - 1\<rparr>), (s, w4))"
    using add cl(1) by (simp add: register_client_def prog_simps)
  have so4: "sys_only w2 w4" by (rule sys_only_trans [OF sys_only_trans [OF w3(1) sys_only_steps(4)] cl(2)])
  have inv4: "cp_inv w4" by (rule cp_inv_sys_only [OF w2(1) so4])
  have h4: "heap w4 (next_ref w) = Some c" "next_ref w \<notin> snd ` set (get_pool w4)" using so4 w2(3,5) by simp_all
  obtain w5 where w5: "on_conn (next_ref w) (Connection_Close os) w4 = (Inr (), w5)" "cpool w5 = cpool w4"
    "calls w5 = calls w4 @ close_calls c"
    by (rule on_conn_Close [OF inv4 h4(1), of os]) blast
  have "admit_client os client ip port (s, w1) = (Inr (client\<lparr>sock_fd := - 1\<rparr>), (s, w5))"
    using admit_client_eval [OF new, of s] reg h4(2) w5(1)
    by (simp add: bnd_eval andthen_eval on_snd_eval ret_eval drop_conn_def gets_eval doif_eval Connection_delete_def)
  moreover have "snd (Socket_delete os (client\<lparr>sock_fd := - 1\<rparr>, w5)) = w5"
    by (simp add: Socket_delete_def Socket_Close_def prog_simps)
  ultimately have run: "accept_client os client (s, w) = (Inr (), (s, w5))"
    using accept_client_run [OF assms(2)] by metis
  have "calls w5 = calls w1 @ [Sys_close ?fd, Sys_close ?fd]"
    using w5(3) cl(3) w3(2) w2(4) assms(4) c by (simp add: close_calls_def)
  moreover have "get_pool w5 = get_pool w" using w5(2) so4 w2(2) by (simp add: get_pool_def)
  ultimately show ?thesis using run by blast
qed

lemma rejected_client_closed_twice_witness:
  "\<exists>w1 w'. prepare_client zero_os \<lparr>sock_fd = 9\<rparr> (demo_world []) = (Inr (''0.0.0.0'', 0), w1) \<and>
     accept_client zero_os \<lparr>sock_fd = 9\<rparr> (demo_server, demo_world []) = (Inr (), (demo_server, w')) \<and>
     calls w' = calls w1 @ [Sys_close 9, Sys_close 9]"
proof -
  obtain w1 where w1: "prepare_client zero_os \<lparr>sock_fd = 9\<rparr> (demo_world []) = (Inr (''0.0.0.0'', 0), w1)"
    using demo_prepare by blast
  have inv: "cp_inv (demo_world [])" by (simp add: cp_inv_def demo_world_def get_pool_def tbl_ok_def ConnectionPool_default_def)
  have "\<not> can_add (demo_world []) (sock_fd \<lparr>sock_fd = 9\<rparr>)"
    by (simp add: can_add_def demo_world_def ConnectionPool_default_def)
  from rejected_client_closed_twice [OF inv w1 this, of demo_server] w1 show ?thesis by auto
qed

text \<open>
  C21: A stop that reaches the main reactor through the \<open>eventfd\<close> skips the shutdown. The
  reactor clears \<open>running_\<close> when it sees the event and leaves its loop; the \<open>Stop()\<close> at its end
  returns at once because \<open>running_\<close> is already false: when the loop has ended, no event loop
  is stopped, the connection pool keeps running with all its connections and its heartbeat
  thread, and neither the listening socket nor the \<open>eventfd\<close> is closed. The \<open>Stop()\<close> in the
  destructor returns at once too, so that the destructor destroys the members and does nothing
  else: it closes exactly the listening socket and the \<open>epoll\<close> descriptors of the loops, but not
  the \<open>eventfd\<close>, and the connection pool and its connections stay as they were.
\<close>

theorem eventfd_stop_skips_shutdown:
  assumes "main_loop s = Some el" "srv_running s" "\<not> stop_requested s"
    "os_call os (kst w) (Sys_epoll_wait (epoll_fd (el_epoll el)) (max_events (el_epoll el)) (- 1)) = (r, k)"
    "rp_ret r = 1" "rp_events r = [ev]" "ev_fd ev = signal_fd s" "ep_events (el_epoll el) \<noteq> []"
  shows "\<exists>s' w' w''. main_while os n [\<lambda>x. x, \<lambda>(s, w). (s\<lparr>stop_requested := True\<rparr>, w)] (s, w) = (Inr (), (s', w')) \<and>
    io_thread_pool s' = io_thread_pool s \<and> listen_socket s' = listen_socket s \<and> signal_fd s' = signal_fd s \<and>
    cpool w' = cpool w \<and> heap w' = heap w \<and>
    calls w' = calls w @ [Sys_epoll_wait (epoll_fd (el_epoll el)) (max_events (el_epoll el)) (- 1), Sys_read_eventfd (signal_fd s)] \<and>
    Server_delete os (s', w') = (Inr (),
      (s'\<lparr>srv_memory_pool := None, io_thread_pool := None, main_loop := None, listen_socket := None\<rparr>, w'')) \<and>
    cpool w'' = cpool w \<and> heap w'' = heap w \<and>
    (\<forall>fd. fd \<noteq> - 1 \<longrightarrow> closes fd w'' = closes fd w + count_list (member_fds s) fd)"
proof -
  let ?el = "el\<lparr>el_epoll := (el_epoll el)\<lparr>event_count := 1, ep_events := blit (ep_events (el_epoll el)) 0 [ev]\<rparr>\<rparr>"
  let ?s = "s\<lparr>main_loop := Some ?el\<rparr>"
  have ev: "blit (ep_events (el_epoll el)) 0 [ev] = ev # drop 1 (ep_events (el_epoll el))" by (simp add: blit_def)
  have room: "Suc 0 \<le> length (ep_events (el_epoll el))" using assms(8) by (cases "ep_events (el_epoll el)") simp_all
  obtain w1 where wait: "on_main (on_epoll (Epoll_Wait os (- 1))) (s, w) = (Inr 1, (?s, w1))" and w1: "sys_only w w1"
    "calls w1 = calls w @ [Sys_epoll_wait (epoll_fd (el_epoll el)) (max_events (el_epoll el)) (- 1)]"
    using assms(1,4-6) room by (simp add: on_main_def on_epoll_def Epoll_Wait_def prog_simps)
  obtain w2 where evs: "main_events os n [0] (?s, w1\<lparr>logs := logs w1 @ [(DEBUG, ''Main EventLoop: num_events='' @ to_string 1)]\<rparr>) =
      (Inr (), (?s\<lparr>srv_running := False\<rparr>, w2))"
    and w2: "cpool w2 = cpool w1" "heap w2 = heap w1" "calls w2 = calls w1 @ [Sys_read_eventfd (signal_fd s)]"
    using assms(7) ev by (simp add: the_main_def prog_simps Epoll_GetEvents_def EventLoop_GetEpoll_def set_server_def)
  have round: "main_round os n (s, w) = (Inr True, (?s\<lparr>srv_running := False\<rparr>, w2))"
    using wait evs by (simp add: main_round_def prog_simps)
  let ?s' = "?s\<lparr>srv_running := False, stop_requested := True\<rparr>"
    and ?w' = "w2\<lparr>logs := logs w2 @ [(INFO, ''Main EventLoop stopped'')]\<rparr>"
  let ?w'' = "destroy_members os ?s' ?w'"
  have run: "main_while os n [\<lambda>x. x, \<lambda>(s, w). (s\<lparr>stop_requested := True\<rparr>, w)] (s, w) = (Inr (), (?s', ?w'))"
    using assms(2,3) round by (simp add: prog_simps Server_Stop_idle)
  have calls: "calls ?w' = calls w @ [Sys_epoll_wait (epoll_fd (el_epoll el)) (max_events (el_epoll el)) (- 1),
      Sys_read_eventfd (signal_fd s)]"
    using w1(2) w2(3) by simp
  have del: "Server_delete os (?s', ?w') = (Inr (),
      (?s'\<lparr>srv_memory_pool := None, io_thread_pool := None, main_loop := None, listen_socket := None\<rparr>, ?w''))"
    by (simp add: Server_delete_def prog_simps Server_Stop_idle)
  have fds: "member_fds ?s' = member_fds s" using assms(1) by (simp add: member_fds_def)
  have "closes fd ?w'' = closes fd w + count_list (member_fds s) fd" if "fd \<noteq> - 1" for fd
    using destroy_members_spec(2) [OF that, of os ?s' ?w'] calls by (simp add: fds closes_def)
  moreover have "cpool ?w'' = cpool w" "heap ?w'' = heap w"
    using destroy_members_spec(1) [of ?w' os ?s'] w1(1) w2(1,2) by simp_all
  moreover have "cpool ?w' = cpool w" "heap ?w' = heap w" using w1(1) w2(1,2) by simp_all
  ultimately show ?thesis
    using run calls del by (intro exI [of _ ?s'] exI [of _ ?w'] exI [of _ ?w'']) simp
qed

lemma eventfd_stop_skips_shutdown_witness:
  "\<exists>s' w' w''. main_while (zero_os\<lparr>os_call := \<lambda>k c. ((reply_of 1 0 [])\<lparr>rp_events := [\<lparr>ev_events = EPOLLIN, ev_fd = 6\<rparr>]\<rparr>, k)\<rparr>) 1
      [\<lambda>x. x, \<lambda>(s, w). (s\<lparr>stop_requested := True\<rparr>, w)] (demo_server, demo_pooled []) = (Inr (), (s', w')) \<and>
     cp_running (cpool w') \<and> listen_socket s' = Some \<lparr>sock_fd = 5\<rparr> \<and>
     snd (snd (Server_delete (zero_os\<lparr>os_call := \<lambda>k c. ((reply_of 1 0 [])\<lparr>rp_events := [\<lparr>ev_events = EPOLLIN, ev_fd = 6\<rparr>]\<rparr>, k)\<rparr>)
       (s', w'))) = w'' \<and> cp_running (cpool w'') \<and> closes 5 w'' = 1 \<and> closes 6 w'' = 0"
proof -
  let ?r = "(reply_of 1 0 [])\<lparr>rp_events := [\<lparr>ev_events = EPOLLIN, ev_fd = 6\<rparr>]\<rparr>"
  let ?os = "zero_os\<lparr>os_call := \<lambda>k c. (?r, k)\<rparr>"
  have s: "main_loop demo_server = Some demo_loop" "srv_running demo_server" "\<not> stop_requested demo_server"
    by (simp_all add: demo_server_def Server_default_def)
  have r: "rp_ret ?r = 1" "rp_events ?r = [\<lparr>ev_events = EPOLLIN, ev_fd = 6\<rparr>]"
    "ev_fd \<lparr>ev_events = EPOLLIN, ev_fd = 6\<rparr> = signal_fd demo_server" "ep_events (el_epoll demo_loop) \<noteq> []"
    by (simp_all add: reply_of_def demo_server_def demo_loop_def)
  have call: "os_call ?os (kst (demo_pooled [])) (Sys_epoll_wait (epoll_fd (el_epoll demo_loop)) (max_events (el_epoll demo_loop)) (- 1)) =
      (?r, kst (demo_pooled []))" by simp
  have fds: "count_list (member_fds demo_server) 5 = 1" "count_list (member_fds demo_server) 6 = 0"
    by (simp_all add: member_fds_def demo_server_def demo_io_def demo_loop_def Server_default_def)
  have none: "closes fd (demo_pooled []) = 0" for fd by (simp add: closes_def demo_pooled_def demo_world_def)
  obtain s' w' w'' where E: "main_while ?os 1 [\<lambda>x. x, \<lambda>(s, w). (s\<lparr>stop_requested := True\<rparr>, w)] (demo_server, demo_pooled []) = (Inr (), (s', w'))"
    "listen_socket s' = listen_socket demo_server" "cpool w' = cpool (demo_pooled [])"
    "Server_delete ?os (s', w') = (Inr (),
      (s'\<lparr>srv_memory_pool := None, io_thread_pool := None, main_loop := None, listen_socket := None\<rparr>, w''))"
    "cpool w'' = cpool (demo_pooled [])"
    "\<forall>fd. fd \<noteq> - 1 \<longrightarrow> closes fd w'' = closes fd (demo_pooled []) + count_list (member_fds demo_server) fd"
    using eventfd_stop_skips_shutdown [OF s call r, of 1] by blast
  have "closes 5 w'' = 1" "closes 6 w'' = 0" using E(6) fds none by simp_all
  moreover have "cp_running (cpool w')" "cp_running (cpool w'')" using E(3,5) demo_pooled_inv(4) [of "[]"] by simp_all
  moreover have "listen_socket s' = Some \<lparr>sock_fd = 5\<rparr>" using E(2) by (simp add: demo_server_def)
  ultimately show ?thesis using E(1,4) by (intro exI [of _ s'] exI [of _ w'] exI [of _ w'']) simp
qed

end
