(* ===== verification/Main_Args.thy ===== *)
theory Main_Args
  imports Net_Server
begin

text \<open>
  \<open>src/main.cpp\<close>: the command line and the start of the server, with the conversions
  \<open>std::stoi\<close>, \<open>std::stoll\<close> and \<open>std::stoull\<close> of the C++ library.
\<close>

section \<open>Numbers from strings\<close>

definition is_space :: "char \<Rightarrow> bool" where
  "is_space c \<longleftrightarrow> of_char c = (32 :: nat) \<or> 9 \<le> (of_char c :: nat) \<and> of_char c \<le> (13 :: nat)"

definition is_digit :: "char \<Rightarrow> bool" where
  "is_digit c \<longleftrightarrow> 48 \<le> (of_char c :: nat) \<and> of_char c \<le> (57 :: nat)"

definition digit_value :: "char \<Rightarrow> nat" where
  "digit_value c = of_char c - 48"

definition digits_value :: "string \<Rightarrow> nat" where
  "digits_value ds = foldl (\<lambda>n c. 10 * n + digit_value c) 0 ds"

text \<open>
  \<open>strtol\<close> and its kin in base 10: white space, an optional sign, and the digits; the result
  is the sign and the magnitude, or \<open>None\<close> without a digit. What follows the digits is
  ignored.
\<close>

definition scan_number :: "string \<Rightarrow> (bool \<times> nat) option" where
  "scan_number s =
     (let t = dropWhile is_space s;
          neg = (case t of c # _ \<Rightarrow> c = CHR ''-'' | [] \<Rightarrow> False);
          u = (case t of c # r \<Rightarrow> if c = CHR ''-'' \<or> c = CHR ''+'' then r else t | [] \<Rightarrow> t);
          ds = takeWhile is_digit u
      in if ds = [] then None else Some (neg, digits_value ds))"

definition stoi :: "string \<Rightarrow> exn + int" where
  "stoi s = (case scan_number s of
       None \<Rightarrow> Inl (Invalid_argument ''stoi'')
     | Some (neg, n) \<Rightarrow> let v = (if neg then - int n else int n)
         in if v < - (2 ^ 31) \<or> 2 ^ 31 \<le> v then Inl (Out_of_range ''stoi'') else Inr v)"

definition stoll :: "string \<Rightarrow> exn + int" where
  "stoll s = (case scan_number s of
       None \<Rightarrow> Inl (Invalid_argument ''stoll'')
     | Some (neg, n) \<Rightarrow> let v = (if neg then - int n else int n)
         in if v < - (2 ^ 63) \<or> 2 ^ 63 \<le> v then Inl (Out_of_range ''stoll'') else Inr v)"

text \<open>\<open>strtoull\<close> accepts a minus sign and then negates modulo $2^{64}$.\<close>

definition stoull :: "string \<Rightarrow> exn + size_t" where
  "stoull s = (case scan_number s of
       None \<Rightarrow> Inl (Invalid_argument ''stoull'')
     | Some (neg, n) \<Rightarrow> if 2 ^ 64 \<le> n then Inl (Out_of_range ''stoull'')
         else Inr (if neg then usz_sub 0 n else n))"

section \<open>The command line\<close>

definition endl :: string where
  "endl = [CHR 0x0A]"

definition PrintUsage :: "string \<Rightarrow> string" where
  "PrintUsage program =
     ''Usage: '' @ program @ '' [options]'' @ endl @
     endl @
     ''Options:'' @ endl @
     ''  -h, --help              Show this help message'' @ endl @
     ''  -p, --port <port>       Listen port (default: 8888)'' @ endl @
     ''  -i, --ip <ip>           Listen IP (default: 0.0.0.0)'' @ endl @
     ''  -b, --backlog <num>     Listen backlog (default: 128)'' @ endl @
     ''  -c, --max-conn <num>    Max connections (default: 100000)'' @ endl @
     ''  -t, --timeout <ms>      Heartbeat timeout (default: 60000)'' @ endl @
     ''  -v, --verbose           Enable verbose logging'' @ endl @
     endl"

text \<open>
  The loop over the arguments after the program name. \<open>None\<close> is the end by \<open>--help\<close>; an
  option whose value is missing is ignored, and so is an unknown argument.
\<close>

definition set_port :: "string \<Rightarrow> Config \<Rightarrow> exn + Config" where
  "set_port v c = (case stoi v of Inl e \<Rightarrow> Inl e | Inr n \<Rightarrow> Inr (c\<lparr>cfg_port := word_of_int n\<rparr>))"

definition set_backlog :: "string \<Rightarrow> Config \<Rightarrow> exn + Config" where
  "set_backlog v c = (case stoi v of Inl e \<Rightarrow> Inl e | Inr n \<Rightarrow> Inr (c\<lparr>cfg_backlog := n\<rparr>))"

definition set_max_conn :: "string \<Rightarrow> Config \<Rightarrow> exn + Config" where
  "set_max_conn v c = (case stoull v of Inl e \<Rightarrow> Inl e | Inr n \<Rightarrow> Inr (c\<lparr>cfg_max_connections := n\<rparr>))"

definition set_timeout :: "string \<Rightarrow> Config \<Rightarrow> exn + Config" where
  "set_timeout v c = (case stoll v of Inl e \<Rightarrow> Inl e | Inr n \<Rightarrow> Inr (c\<lparr>cfg_heartbeat_timeout_ms := n\<rparr>))"

definition option_setter :: "string \<Rightarrow> (string \<Rightarrow> Config \<Rightarrow> exn + Config) option" where
  "option_setter arg =
     (if arg = ''-p'' \<or> arg = ''--port'' then Some set_port
      else if arg = ''-i'' \<or> arg = ''--ip'' then Some (\<lambda>v c. Inr (c\<lparr>cfg_ip := v\<rparr>))
      else if arg = ''-b'' \<or> arg = ''--backlog'' then Some set_backlog
      else if arg = ''-c'' \<or> arg = ''--max-conn'' then Some set_max_conn
      else if arg = ''-t'' \<or> arg = ''--timeout'' then Some set_timeout
      else None)"

fun parse_args :: "string list \<Rightarrow> Config \<Rightarrow> exn + Config option" where
  "parse_args [] c = Inr (Some c)"
| "parse_args (arg # rest) c =
     (if arg = ''-h'' \<or> arg = ''--help'' then Inr None
      else case option_setter arg of
          Some f \<Rightarrow> (case rest of
              [] \<Rightarrow> parse_args rest c
            | v # rest' \<Rightarrow> (case f v c of Inl e \<Rightarrow> Inl e | Inr c' \<Rightarrow> parse_args rest' c'))
        | None \<Rightarrow> if arg = ''-v'' \<or> arg = ''--verbose'' then parse_args rest (c\<lparr>cfg_log_level := DEBUG\<rparr>)
                  else parse_args rest c)"

text \<open>\<open>main\<close>: the result is what is written to the standard output and the exit code.\<close>

definition server_main :: "'k os \<Rightarrow> nat \<Rightarrow> nat \<Rightarrow>
    (Server \<times> ('k, 'z) world_scheme \<Rightarrow> Server \<times> ('k, 'z) world_scheme) list \<Rightarrow> string list \<Rightarrow>
    (Server \<times> ('k, 'z) world_scheme, string \<times> int) prog" where
  "server_main os this_thread n others argv = (case parse_args (tl argv) Config_default of
       Inl e \<Rightarrow> throw e
     | Inr None \<Rightarrow> ret (PrintUsage (hd argv), 0)
     | Inr (Some config) \<Rightarrow>
         andthen (Server_Init os this_thread config)
        (andthen (Server_Start os n others)
        (andthen Server_Wait (ret ([], 0)))))"

section \<open>Lemmas\<close>

lemma of_char_digit: "d < 10 \<Longrightarrow> of_char (digit_char d) = (48 + d :: nat)"
  by (simp add: digit_char_def)

lemma digit_char_props:
  assumes "d < 10"
  shows "is_digit (digit_char d)" "\<not> is_space (digit_char d)" "digit_value (digit_char d) = d"
    "digit_char d \<noteq> CHR ''-''" "digit_char d \<noteq> CHR ''+''"
proof -
  show "is_digit (digit_char d)" "\<not> is_space (digit_char d)" "digit_value (digit_char d) = d"
    using of_char_digit [OF assms] assms by (simp_all add: is_digit_def is_space_def digit_value_def)
  have "of_char (CHR ''-'') = (45 :: nat)" "of_char (CHR ''+'') = (43 :: nat)" by simp_all
  then show "digit_char d \<noteq> CHR ''-''" "digit_char d \<noteq> CHR ''+''" using of_char_digit [OF assms] by auto
qed

lemma nat_to_string_digits:
  "(\<forall>c \<in> set (nat_to_string n). \<exists>d < 10. c = digit_char d) \<and> nat_to_string n \<noteq> [] \<and> digits_value (nat_to_string n) = n"
proof (induction n rule: less_induct)
  case (less n)
  show ?case
  proof (cases "n < 10")
    case True
    then show ?thesis
      by (simp add: nat_to_string.simps [of n] digits_value_def digit_char_props) blast
  next
    case False
    then have "n div 10 < n" by simp
    note ih = less [OF this]
    have "nat_to_string n = nat_to_string (n div 10) @ [digit_char (n mod 10)]"
      using False by (simp add: nat_to_string.simps [of n])
    moreover have "\<exists>d < 10. digit_char (n mod 10) = digit_char d" by (rule exI [of _ "n mod 10"]) simp
    ultimately show ?thesis
      using ih digit_char_props(3) [of "n mod 10"] by (auto simp: digits_value_def)
  qed
qed

lemma nat_to_string_char:
  assumes "x \<in> set (nat_to_string n)"
  shows "is_digit x" "\<not> is_space x" "x \<noteq> CHR ''-''" "x \<noteq> CHR ''+''"
proof -
  obtain d where "d < 10" "x = digit_char d" using nat_to_string_digits [of n] assms by blast
  then show "is_digit x" "\<not> is_space x" "x \<noteq> CHR ''-''" "x \<noteq> CHR ''+''" using digit_char_props by simp_all
qed

lemma takeWhile_nat_to_string: "takeWhile is_digit (nat_to_string n) = nat_to_string n"
  using nat_to_string_char(1) by (simp add: takeWhile_eq_all_conv)

lemma scan_nat: "scan_number (nat_to_string n) = Some (False, n)"
proof -
  obtain c r where cr: "nat_to_string n = c # r" using nat_to_string_digits [of n] by (cases "nat_to_string n") auto
  then have c: "\<not> is_space c" "c \<noteq> CHR ''-''" "c \<noteq> CHR ''+''" using nat_to_string_char [of c n] by simp_all
  then show ?thesis
    using nat_to_string_digits [of n] takeWhile_nat_to_string [of n] unfolding cr by (simp add: scan_number_def Let_def)
qed

lemma scan_neg: "scan_number (CHR ''-'' # nat_to_string n) = Some (True, n)"
  using nat_to_string_digits [of n] by (simp add: scan_number_def Let_def is_space_def takeWhile_nat_to_string)

lemma scan_to_string: "scan_number (to_string i) = Some (i < 0, nat \<bar>i\<bar>)"
  by (simp add: to_string_def scan_nat scan_neg)

lemma number_roundtrips:
  "- (2 ^ 31) \<le> i \<Longrightarrow> i < 2 ^ 31 \<Longrightarrow> stoi (to_string i) = Inr i"
  "- (2 ^ 63) \<le> i \<Longrightarrow> i < 2 ^ 63 \<Longrightarrow> stoll (to_string i) = Inr i"
  "n < 2 ^ 64 \<Longrightarrow> stoull (to_string (int n)) = Inr n"
  by (simp_all add: stoi_def stoll_def stoull_def scan_to_string Let_def)

section \<open>Properties\<close>

text \<open>
  C35: The command line can express every configuration of its options: printing the port,
  the address, the backlog, the connection limit and the timeout after their options, with
  \<open>-v\<close> for the level \<open>DEBUG\<close>, and parsing the result gives exactly this configuration,
  for every value in the range of its type; the other fields keep their defaults.
\<close>

theorem command_line_roundtrip:
  assumes "- (2 ^ 31) \<le> cfg_backlog c" "cfg_backlog c < 2 ^ 31" "cfg_max_connections c < 2 ^ 64"
    "- (2 ^ 63) \<le> cfg_heartbeat_timeout_ms c" "cfg_heartbeat_timeout_ms c < 2 ^ 63"
  shows "parse_args ([''-p'', to_string (uint (cfg_port c)), ''--ip'', cfg_ip c, ''-b'', to_string (cfg_backlog c),
      ''--max-conn'', to_string (int (cfg_max_connections c)), ''-t'', to_string (cfg_heartbeat_timeout_ms c)] @
      (if cfg_log_level c = DEBUG then [''-v''] else [])) Config_default =
    Inr (Some (Config_default\<lparr>cfg_ip := cfg_ip c, cfg_port := cfg_port c, cfg_backlog := cfg_backlog c,
      cfg_max_connections := cfg_max_connections c, cfg_heartbeat_timeout_ms := cfg_heartbeat_timeout_ms c,
      cfg_log_level := (if cfg_log_level c = DEBUG then DEBUG else INFO)\<rparr>))"
proof -
  have "uint (cfg_port c) < 2 ^ 31" using uint_lt2p [of "cfg_port c"] by simp
  then have "stoi (to_string (uint (cfg_port c))) = Inr (uint (cfg_port c))"
    using number_roundtrips(1) [of "uint (cfg_port c)"] uint_nonnegative [of "cfg_port c"] by linarith
  moreover note number_roundtrips(1) [OF assms(1,2)] number_roundtrips(2) [OF assms(4,5)] number_roundtrips(3) [OF assms(3)]
  ultimately show ?thesis
    by (simp add: option_setter_def set_port_def set_backlog_def set_max_conn_def set_timeout_def Config_default_def)
qed

lemma command_line_roundtrip_witness:
  "parse_args ([''-p'', to_string (uint (7777 :: 16 word)), ''--ip'', ''127.0.0.1'', ''-b'', to_string 5,
     ''--max-conn'', to_string (int 10), ''-t'', to_string 1000] @ [''-v'']) Config_default =
   Inr (Some (Config_default\<lparr>cfg_ip := ''127.0.0.1'', cfg_port := 7777, cfg_backlog := 5, cfg_max_connections := 10,
     cfg_heartbeat_timeout_ms := 1000, cfg_log_level := DEBUG\<rparr>))"
  using command_line_roundtrip [of "Config_default\<lparr>cfg_ip := ''127.0.0.1'', cfg_port := 7777, cfg_backlog := 5,
    cfg_max_connections := 10, cfg_heartbeat_timeout_ms := 1000, cfg_log_level := DEBUG\<rparr>"] by simp

end
