(* ===== verification/Server_Safety.thy ===== *)
theory Server_Safety
  imports Main_Args
begin

text \<open>
  The whole server: from \<open>Init\<close> through \<open>Start\<close> to the end of the main reactor, with
  the event loops of the other threads, the heartbeat checks and the signal handlers between
  any two rounds of the main loop. The lemmas show, program by program, that there is no
  undefined behaviour (no dangling connection, null pointer, index outside of an array or
  access outside of a buffer) and that the invariant of the connection pool is kept.
\<close>

unbundle bit_operations_syntax

section \<open>The connection pool\<close>

text \<open>\<open>live_ok m A\<close>: the pool is in order, and the references \<open>A\<close> are valid.\<close>

definition live_ok :: "size_t \<Rightarrow> nat set \<Rightarrow> ('k, 'z) world_scheme \<Rightarrow> bool" where
  "live_ok m A w \<longleftrightarrow> pool_ok m w \<and> A \<subseteq> dom (heap w)"

lemma live_ok_sys_only: "live_ok m A w \<Longrightarrow> sys_only w w' \<Longrightarrow> live_ok m A w'"
  by (auto simp: live_ok_def intro: pool_ok_sys_only)

text \<open>
  System calls and messages keep every invariant that does not speak of the history; the two
  such invariants here are the one of the pool, and that the pool is not initialised yet.
\<close>

lemma stable_live [safe_intros]: "sys_stable (live_ok m A)"
  by (auto simp: sys_stable_def intro: live_ok_sys_only)

lemma stable_fresh [safe_intros]: "sys_stable fresh_world"
  by (auto simp: sys_stable_def fresh_world_def)

lemma safe_calls [safe_intros]:
  assumes "sys_stable I"
  shows "safe I (syscall os c)" "safe I (LOG lv msg)" "safe I (steady_now os)"
  by (rule safeI [OF keeps_stable [OF _ assms]], intro keeps_intros, simp add: prog_simps)+

text \<open>A reference found in the table is valid from then on.\<close>

lemma safe_more:
  assumes "safe (live_ok m (B \<union> A)) p" "live_ok m A w" "B \<subseteq> dom (heap w)"
  shows "live_ok m A (snd (p w)) \<and> fst (p w) \<noteq> Inl (Undefined_behaviour u)"
proof -
  have I: "live_ok m (B \<union> A) w" using assms(2,3) by (auto simp: live_ok_def)
  then have "live_ok m (B \<union> A) (snd (p w))" using safe_keeps [OF assms(1)] by (simp add: keeps_def)
  with safeD [OF assms(1) I] show ?thesis by (simp add: live_ok_def)
qed

lemma safe_pointwise:
  assumes "\<And>w u. I w \<Longrightarrow> I (snd (p w)) \<and> fst (p w) \<noteq> Inl (Undefined_behaviour u)"
  shows "safe I p"
  unfolding safe_def by (rule tripleI) (use assms in \<open>metis fst_conv snd_conv\<close>)+

lemma safe_GetConnection [safe_intros]:
  assumes "safe (live_ok m A) (f None)" "\<And>a. safe (live_ok m (insert a A)) (f (Some a))"
  shows "safe (live_ok m A) (bnd (ConnectionPool_GetConnection fd) f)"
proof (rule safe_pointwise)
  fix w :: "('a, 'b) world_scheme" and u assume I: "live_ok m A w"
  have run: "bnd (ConnectionPool_GetConnection fd) f w = f (tbl_find (get_pool w) fd) w"
    by (simp add: ConnectionPool_GetConnection_def prog_simps)
  show "live_ok m A (snd (bnd (ConnectionPool_GetConnection fd) f w)) \<and>
      fst (bnd (ConnectionPool_GetConnection fd) f w) \<noteq> Inl (Undefined_behaviour u)"
  proof (cases "tbl_find (get_pool w) fd")
    case None
    then show ?thesis using run I safeD [OF assms(1)] safe_keeps [OF assms(1)] by (simp add: keeps_def)
  next
    case (Some a)
    have "heap w a \<noteq> None"
      using cp_inv_entry(2) [OF _ Some] I by (auto simp: live_ok_def pool_ok_def)
    then show ?thesis using safe_more [of m "{a}" A "f (Some a)" w u] assms(2) [of a] I run Some by auto
  qed
qed

lemma safe_deref [safe_intros]:
  assumes "a \<in> A" "\<And>c. conn_inv c \<Longrightarrow> safe (live_ok m A) (f c)"
  shows "safe (live_ok m A) (bnd (deref a) f)"
proof (rule safe_pointwise)
  fix w :: "('a, 'b) world_scheme" and u assume I: "live_ok m A w"
  then obtain c where c: "heap w a = Some c" "conn_inv c"
    using assms(1) by (auto simp: live_ok_def pool_ok_def cp_inv_def)
  have "bnd (deref a) f w = f c w" by (simp add: bnd_eval deref_eval [OF c(1)])
  with I safeD [OF assms(2) [OF c(2)]] safe_keeps [OF assms(2) [OF c(2)]]
  show "live_ok m A (snd (bnd (deref a) f w)) \<and> fst (bnd (deref a) f w) \<noteq> Inl (Undefined_behaviour u)"
    by (simp add: keeps_def)
qed

lemma safe_on_conn:
  assumes "a \<in> A" "\<And>c w. conn_inv c \<Longrightarrow> conn_keeps (c, w) (snd (f (c, w)))"
    "\<And>c w. conn_inv c \<Longrightarrow> no_ub (f (c, w))"
  shows "safe (live_ok m A) (on_conn a f)"
proof (rule safe_pointwise)
  fix w :: "('a, 'b) world_scheme" and u assume I: "live_ok m A w"
  then obtain c where c: "heap w a = Some c" "conn_inv c"
    using assms(1) by (auto simp: live_ok_def pool_ok_def cp_inv_def)
  have inv: "cp_inv w" "max_connections (cpool w) = m" "A \<subseteq> dom (heap w)" using I by (simp_all add: live_ok_def pool_ok_def)
  note k = on_conn_keeps [where m = f, OF inv(1) c(1) assms(2) [OF c(2)]]
  show "live_ok m A (snd (on_conn a f w)) \<and> fst (on_conn a f w) \<noteq> Inl (Undefined_behaviour u)"
    using k(1-3,5) inv(2,3) assms(3) [OF c(2), of w] by (auto simp: live_ok_def pool_ok_def no_ub_def)
qed

text \<open>The operations of a connection stay inside its buffers as long as the fill marks do.\<close>

lemma recv_all_no_ub:
  assumes "recv_ok os"
  shows "conn_inv c \<Longrightarrow> no_ub (recv_all os n (c, w))"
proof (induction n arbitrary: c w)
  case 0
  then show ?case by (simp add: no_ub_def prog_simps)
next
  case (Suc n)
  obtain r c1 w1 where R: "Connection_Recv os (c, w) = (r, (c1, w1))" by (metis surj_pair)
  have "conn_inv c1" "no_ub (r, (c1, w1))"
    using Recv_keeps [OF assms Suc.prems, of w] Suc.prems R by (simp_all add: conn_keeps_def)
  with Suc.IH [of c1 w1] R show ?case by (cases r) (simp_all add: no_ub_def prog_simps)
qed

lemma plain_ops:
  "conn_keeps (c, w) (snd (Connection_UpdateHeartbeat os (c, w)))" "no_ub (Connection_UpdateHeartbeat os (c, w))"
  "no_ub (Connection_Close os (c, w))"
  "conn_keeps (c, w) (snd (Connection_SetState st (c, w)))" "no_ub (Connection_SetState st (c, w))"
  by (auto simp: no_ub_def Connection_UpdateHeartbeat_def Close_eval Connection_SetState_def prog_simps closes_def Let_def
      intro!: conn_keepsI split: prod.split)

lemma safe_on_conn_ops [safe_intros]:
  assumes "a \<in> A"
  shows "length bs < 2 ^ 63 \<Longrightarrow> safe (live_ok m A) (on_conn a (Connection_AppendWriteBuffer os bs))"
    "safe (live_ok m A) (on_conn a (Connection_ConsumeReadBuffer len))"
    "send_ok os \<Longrightarrow> safe (live_ok m A) (on_conn a (Connection_Send os))"
    "recv_ok os \<Longrightarrow> safe (live_ok m A) (on_conn a (recv_all os n))"
    "safe (live_ok m A) (on_conn a (Connection_UpdateHeartbeat os))"
    "safe (live_ok m A) (on_conn a (Connection_Close os))"
    "safe (live_ok m A) (on_conn a (Connection_SetState st))"
  by (rule safe_on_conn [OF assms],
      simp_all only: AppendWriteBuffer_keeps ConsumeReadBuffer_keeps Send_keeps recv_all_keeps recv_all_no_ub
        Close_keeps plain_ops; fail)+

lemma safe_RemoveConnection [safe_intros]: "safe (live_ok m A) (ConnectionPool_RemoveConnection os fd)"
proof (rule safe_pointwise)
  fix w :: "('a, 'b) world_scheme" and u assume I: "live_ok m A w"
  then have inv: "cp_inv w" "max_connections (cpool w) = m" "A \<subseteq> dom (heap w)" by (auto simp: live_ok_def pool_ok_def)
  show "live_ok m A (snd (ConnectionPool_RemoveConnection os fd w)) \<and>
      fst (ConnectionPool_RemoveConnection os fd w) \<noteq> Inl (Undefined_behaviour u)"
  proof (cases "tbl_find (get_pool w) fd")
    case None
    then show ?thesis using I live_ok_sys_only [OF I sys_only_steps(4)] by (simp add: RemoveConnection_missing)
  next
    case (Some a)
    then obtain c where c: "heap w a = Some c" using cp_inv_entry(2) [OF inv(1)] by blast
    show ?thesis
      by (rule RemoveConnection_found [OF inv(1) Some c, of os]) (use inv(2,3) in \<open>auto simp: live_ok_def pool_ok_def\<close>)
  qed
qed

lemma safe_table:
  assumes "\<And>p. safe (live_ok m (snd ` set (connections p) \<union> A)) (f p)"
  shows "safe (live_ok m A) (bnd (gets cpool) f)"
proof (rule safe_pointwise)
  fix w :: "('a, 'b) world_scheme" and u assume I: "live_ok m A w"
  have "snd ` set (connections (cpool w)) \<subseteq> dom (heap w)"
    using I by (force simp: live_ok_def pool_ok_def cp_inv_def get_pool_def)
  from safe_more [OF assms I this]
  show "live_ok m A (snd (bnd (gets cpool) f w)) \<and> fst (bnd (gets cpool) f w) \<noteq> Inl (Undefined_behaviour u)"
    by (simp add: prog_simps)
qed

lemma safe_set_pool:
  assumes "\<And>p. connections (f p) = connections p \<or> connections (f p) = []" "\<And>p. max_connections (f p) = max_connections p"
  shows "safe (live_ok m A) (set_pool f)"
proof (rule safe_pointwise)
  fix w :: "('a, 'b) world_scheme" and u assume "live_ok m A w"
  then show "live_ok m A (snd (set_pool f w)) \<and> fst (set_pool f w) \<noteq> Inl (Undefined_behaviour u)"
    using assms [of "cpool w"] by (auto simp: live_ok_def pool_ok_def cp_inv_def get_pool_def tbl_ok_def prog_simps)
qed

lemma safe_close_each: "snd ` set t \<subseteq> A \<Longrightarrow> safe (live_ok m A) (close_each os t)"
  by (induction t) (auto intro!: safe_intros)

lemma safe_collect: "snd ` set t \<subseteq> A \<Longrightarrow> safe (live_ok m A) (collect_timeouts os timeout t)"
proof (induction t)
  case (Cons p t)
  then show ?case
    unfolding collect_timeouts.simps Connection_IsTimeout_def by (auto intro!: safe_bnd safe_intros safe_deref)
qed (simp add: safe_basic)

lemma safe_remove_each: "safe (live_ok m A) (remove_each os fds)"
  by (induction fds) (auto intro!: safe_bnd safe_intros)

lemma safe_pool_ops [safe_intros]:
  assumes "iter_ok os"
  shows "safe (live_ok m A) (heartbeat_round os)" "safe (live_ok m A) (ConnectionPool_Shutdown os)"
    "safe (live_ok m A) ConnectionPool_StartHeartbeatCheck" "safe (live_ok m A) ConnectionPool_StopHeartbeatCheck"
proof -
  show stop: "safe (live_ok m A) ConnectionPool_StopHeartbeatCheck" "safe (live_ok m A) ConnectionPool_StartHeartbeatCheck" for A
    unfolding ConnectionPool_StopHeartbeatCheck_def ConnectionPool_StartHeartbeatCheck_def
    by (rule safe_intros safe_set_pool | rule safe_bnd | simp)+
  show "safe (live_ok m A) (heartbeat_round os)"
    unfolding heartbeat_round_def
    by (rule safe_table, rule safe_bnd, rule safe_collect)
       (auto simp: iter_okD(1) [OF assms] intro!: safe_intros safe_remove_each)
  show "safe (live_ok m A) (ConnectionPool_Shutdown os)"
    unfolding ConnectionPool_Shutdown_def
    by (rule safe_andthen [OF stop(1)], rule safe_table)
       (auto simp: iter_okD(1) [OF assms] intro!: safe_intros safe_set_pool safe_close_each)
qed

section \<open>The event loops\<close>

lemma safe_epoll_ctl [safe_intros]:
  assumes "sys_stable I"
  shows "safe I (EventLoop_AddFd os el fd ev)" "safe I (EventLoop_ModifyFd os el fd ev)"
    "safe I (EventLoop_RemoveFd os el fd)" "safe I (Epoll_CheckError os r what)"
  unfolding EventLoop_AddFd_def EventLoop_ModifyFd_def EventLoop_RemoveFd_def Epoll_AddFd_def Epoll_ModifyFd_def
    Epoll_RemoveFd_def Epoll_CheckError_def Let_def
  by (rule safe_intros assms exn.distinct | rule safe_bnd)+

lemma safe_HandleError [safe_intros]: "safe (live_ok m A) (HandleError os el fd)"
  unfolding HandleError_def by (simp only: option.case | rule safe_intros insertI1 | rule safe_bnd)+

lemma safe_rearm [safe_intros]: "a \<in> A \<Longrightarrow> safe (live_ok m A) (rearm os el fd a)"
  unfolding rearm_def by (rule safe_intros | assumption)+

lemma safe_echo_back [safe_intros]:
  assumes "send_ok os" "a \<in> A"
  shows "safe (live_ok m A) (echo_back os el fd a)"
  unfolding echo_back_def Let_def Connection_GetReadBufferSize_def Connection_GetReadBuffer_def
  by (rule safe_intros safe_guard assms | (auto dest: conn_invD(1,2); fail) | rule safe_bnd)+

lemma safe_handlers [safe_intros]:
  assumes "send_ok os"
  shows "recv_ok os \<Longrightarrow> safe (live_ok m A) (HandleRead os n el fd)" "safe (live_ok m A) (HandleWrite os el fd)"
  unfolding HandleRead_def HandleWrite_def Let_def by (simp only: option.case | rule safe_intros assms insertI1 | assumption | rule safe_bnd)+

lemma safe_handle_event [safe_intros]:
  assumes "recv_ok os" "send_ok os"
  shows "safe (live_ok m A) (handle_event os n el event)"
  unfolding handle_event_def by (rule safe_intros assms)+

lemma safe_HandleEvents:
  assumes "recv_ok os" "send_ok os" "nat (event_count (el_epoll el)) \<le> length (ep_events (el_epoll el))"
  shows "safe (live_ok m A) (HandleEvents os n el)"
proof -
  have "safe (live_ok m A) (handle_each os n el es)" for es
    by (induction es) (auto intro!: safe_intros assms(1,2))
  then show ?thesis using assms(3) by (simp add: HandleEvents_def Epoll_GetEventCount_def handle_from_each)
qed

lemma safe_loop_round:
  assumes "recv_ok os" "send_ok os" "epoll_wait_ok os"
  shows "safe (\<lambda>(el, w). el_ok el \<and> live_ok m A w) (loop_round os n)"
proof (rule safe_pointwise)
  fix x :: "EventLoop \<times> ('a, 'b) world_scheme" and u assume I: "case x of (el, w) \<Rightarrow> el_ok el \<and> live_ok m A w"
  obtain el w where x: "x = (el, w)" by force
  let ?r = "wait_reply os el w"
  let ?el = "after_wait ?r el"
  have el: "el_ok el" and w: "live_ok m A w" using I x by auto
  note ok = after_wait_ok [OF assms(3) el refl, of w]
  have hs: "safe (live_ok m A) (HandleEvents os n ?el)"
    using ok(2) by (intro safe_HandleEvents assms(1,2)) (simp add: after_wait_def)
  obtain w1 where w1: "sys_only w w1" and wait: "on_epoll (Epoll_Wait os (- 1)) (el, w) =
       (if 0 \<le> rp_ret ?r then Inr (rp_ret ?r) else if rp_errno ?r = EINTR then Inr 0
        else Inl (Runtime_error (''epoll_wait failed: '' @ os_strerror os (rp_errno ?r))), (?el, w1))"
    by (rule on_epoll_Wait [OF assms(3) el refl, of w])
  have l1: "live_ok m A w1" by (rule live_ok_sys_only [OF w w1])
  obtain r2 w2 where h: "HandleEvents os n ?el w1 = (r2, w2)" by force
  have "live_ok m A w2" "r2 \<noteq> Inl (Undefined_behaviour u)"
    using keepsD [OF safe_keeps [OF hs] l1 h] safeD [OF hs l1, of u] h by simp_all
  then show "(case snd (loop_round os n x) of (el, w) \<Rightarrow> el_ok el \<and> live_ok m A w) \<and>
      fst (loop_round os n x) \<noteq> Inl (Undefined_behaviour u)"
    using wait h ok(1) l1 by (cases r2) (simp_all add: x loop_round_def prog_simps)
qed

section \<open>Accepting\<close>

text \<open>
  The invariant of the server: its parts exist, each array of events has its size, and the
  round robin is inside the vector of loops. The listening socket exists until \<open>Stop\<close>
  (\<open>lst\<close>), and the main loop has room for the first \<open>N\<close> events.
\<close>

definition srv_ok :: "bool \<Rightarrow> nat \<Rightarrow> Server \<Rightarrow> bool" where
  "srv_ok lst N s \<longleftrightarrow> (lst \<longrightarrow> listen_socket s \<noteq> None) \<and>
     (\<exists>p. io_thread_pool s = Some p \<and> io_ok p \<and> list_all el_ok (loops p)) \<and>
     (\<exists>el. main_loop s = Some el \<and> el_ok el \<and> N \<le> length (ep_events (el_epoll el)))"

definition srv_inv :: "bool \<Rightarrow> nat \<Rightarrow> size_t \<Rightarrow> nat set \<Rightarrow> Server \<times> ('k, 'z) world_scheme \<Rightarrow> bool" where
  "srv_inv lst N m A = (\<lambda>(s, w). srv_ok lst N s \<and> live_ok m A w)"

lemma safe_srv_snd [safe_intros]: "safe (live_ok m A) p \<Longrightarrow> safe (srv_inv lst N m A) (on_snd p)"
  unfolding srv_inv_def by (rule safe_on_snd)

lemma safe_set_server: "(\<And>s. srv_ok lst N s \<Longrightarrow> srv_ok lst N (f s)) \<Longrightarrow> safe (srv_inv lst N m A) (set_server f)"
  unfolding set_server_def by (rule safe_modify) (auto simp: srv_inv_def)

lemma safe_at:
  assumes "safe I p" "I x"
  shows "I (snd (p x)) \<and> fst (p x) \<noteq> Inl (Undefined_behaviour u)"
  using safeD [OF assms] safe_keeps [OF assms(1)] assms(2) by (simp add: keeps_def)

lemma safe_the_listen [safe_intros]:
  assumes "\<And>k. safe (srv_inv True N m A) (f k)"
  shows "safe (srv_inv True N m A) (bnd the_listen f)"
proof (rule safe_pointwise)
  fix x :: "Server \<times> ('a, 'b) world_scheme" and u assume I: "srv_inv True N m A x"
  obtain s w where x: "x = (s, w)" by force
  then obtain k where k: "listen_socket s = Some k" using I by (auto simp: srv_inv_def srv_ok_def)
  have "bnd the_listen f x = f k x" by (simp add: bnd_eval the_listen_def x k)
  with safe_at [OF assms I]
  show "srv_inv True N m A (snd (bnd the_listen f x)) \<and> fst (bnd the_listen f x) \<noteq> Inl (Undefined_behaviour u)" by simp
qed

lemma safe_the_main [safe_intros]:
  assumes "\<And>el. el_ok el \<Longrightarrow> N \<le> length (ep_events (el_epoll el)) \<Longrightarrow> safe (srv_inv lst N m A) (f el)"
  shows "safe (srv_inv lst N m A) (bnd the_main f)"
proof (rule safe_pointwise)
  fix x :: "Server \<times> ('a, 'b) world_scheme" and u assume I: "srv_inv lst N m A x"
  obtain s w where x: "x = (s, w)" by force
  then obtain el where el: "main_loop s = Some el" "el_ok el" "N \<le> length (ep_events (el_epoll el))"
    using I by (auto simp: srv_inv_def srv_ok_def)
  have "bnd the_main f x = f el x" by (simp add: bnd_eval the_main_def x el(1))
  with safe_at [OF assms [OF el(2,3)] I]
  show "srv_inv lst N m A (snd (bnd the_main f x)) \<and> fst (bnd the_main f x) \<noteq> Inl (Undefined_behaviour u)" by simp
qed

text \<open>The next loop, and the registration with it.\<close>

lemma safe_assign [safe_intros]:
  assumes "safe (srv_inv lst N m A) q"
  shows "safe (srv_inv lst N m A) (bnd (on_io GetNextEventLoop) (\<lambda>sub_loop. case sub_loop of
      None \<Rightarrow> p | Some i \<Rightarrow> andthen (sub_loop_AddFd os i fd ev) q))"
    (is "safe ?I ?prog")
proof (rule safe_pointwise)
  fix x :: "Server \<times> ('a, 'b) world_scheme" and u assume I: "?I x"
  obtain s w where x: "x = (s, w)" by force
  then obtain io where io: "io_thread_pool s = Some io" "io_ok io" "list_all el_ok (loops io)"
    using I by (auto simp: srv_inv_def srv_ok_def)
  let ?io = "io\<lparr>next_loop_idx := Suc (next_loop_idx io) mod length (loops io)\<rparr>"
  let ?s = "s\<lparr>io_thread_pool := Some ?io\<rparr>"
  have next_loop: "on_io GetNextEventLoop (s, w) = (Inr (Some (next_loop_idx io)), (?s, w))"
    by (simp add: on_io_def io(1) GetNextEventLoop_eval [OF io(2)])
  have lt: "next_loop_idx io < length (loops io)" using io(2) by (simp add: io_ok_def)
  then have add: "sub_loop_AddFd os (next_loop_idx io) fd ev (?s, w) =
      on_snd (EventLoop_AddFd os (loops io ! next_loop_idx io) fd ev) (?s, w)"
    by (simp add: sub_loop_AddFd_def prog_simps)
  have run: "?prog x = andthen (on_snd (EventLoop_AddFd os (loops io ! next_loop_idx io) fd ev)) q (?s, w)"
    by (simp add: x bnd_eval andthen_eval next_loop add)
  have "?I (?s, w)" using I io io_ok_next [OF io(2)] by (simp add: x srv_inv_def srv_ok_def)
  moreover have "safe ?I (andthen (on_snd (EventLoop_AddFd os (loops io ! next_loop_idx io) fd ev)) q)"
    by (rule safe_intros assms)+
  ultimately show "?I (snd (?prog x)) \<and> fst (?prog x) \<noteq> Inl (Undefined_behaviour u)"
    unfolding run by (rule safe_at [rotated])
qed

lemma safe_close_socket [safe_intros]:
  "safe (live_ok m A) (\<lambda>w. case Socket_Close os (client, w) of (r, (k, w')) \<Rightarrow>
     (case r of Inl e \<Rightarrow> (Inl e, w') | Inr _ \<Rightarrow> (Inr k, w')))"
proof (rule safe_pointwise)
  fix w :: "('a, 'b) world_scheme" and u assume I: "live_ok m A w"
  show "live_ok m A (snd (case Socket_Close os (client, w) of (r, (k, w')) \<Rightarrow>
       (case r of Inl e \<Rightarrow> (Inl e, w') | Inr _ \<Rightarrow> (Inr k, w')))) \<and>
     fst (case Socket_Close os (client, w) of (r, (k, w')) \<Rightarrow>
       (case r of Inl e \<Rightarrow> (Inl e, w') | Inr _ \<Rightarrow> (Inr k, w'))) \<noteq> Inl (Undefined_behaviour u)"
    by (rule Socket_Close_spec [of os client w]) (simp add: live_ok_sys_only [OF I])
qed

lemma safe_register_rest:
  assumes "a \<in> A"
  obtains g where "register_client os client a = bnd (on_snd (ConnectionPool_AddConnection a)) g"
    "\<And>b. safe (srv_inv lst N m A) (bnd (g b) (\<lambda>k. andthen (on_snd (drop_conn os a)) (ret k)))"
proof -
  have drop: "safe (live_ok m A) (drop_conn os a)"
    unfolding drop_conn_def Connection_delete_def by (rule safe_intros assms | rule safe_bnd)+
  show ?thesis
    by (rule that, unfold register_client_def, rule refl)
       (rule safe_intros assms drop | rule safe_bnd)+
qed

lemma AddConnection_live:
  assumes "live_ok m A w" "heap w a = Some c" "a \<notin> snd ` set (get_pool w)"
  obtains b w' where "ConnectionPool_AddConnection a w = (Inr b, w')" "live_ok m (insert a A) w'"
proof -
  have inv: "cp_inv w" "max_connections (cpool w) = m" "A \<subseteq> dom (heap w)" using assms(1) by (auto simp: live_ok_def pool_ok_def)
  show ?thesis
  proof (cases "can_add w (conn_fd c)")
    case True
    then show ?thesis
      by (rule AddConnection_added [OF inv(1) assms(2,3)])
         (use inv(2,3) assms(2) in \<open>auto intro!: that simp: live_ok_def pool_ok_def\<close>)
  next
    case False
    then show ?thesis
      by (rule AddConnection_refused [OF assms(2)])
         (use inv assms(2) in \<open>auto intro!: that intro: cp_inv_sys_only simp: live_ok_def pool_ok_def\<close>)
  qed
qed

lemma safe_admit_client [safe_intros]: "safe (srv_inv lst N m A) (admit_client os client ip port)"
proof (rule safe_pointwise)
  fix x :: "Server \<times> ('a, 'b) world_scheme" and u assume I: "srv_inv lst N m A x"
  obtain s w where x: "x = (s, w)" by force
  have w: "cp_inv w" "max_connections (cpool w) = m" "A \<subseteq> dom (heap w)" and s: "srv_ok lst N s"
    using I by (simp_all add: x srv_inv_def live_ok_def pool_ok_def)
  obtain w2 c where new: "bnd (make_conn os (sock_fd client) ip port) (\<lambda>a. andthen (on_conn a (Connection_SetState CONNECTED)) (ret a)) w =
      (Inr (next_ref w), w2)" and w2: "cp_inv w2" "cpool w2 = cpool w" "heap w2 = (heap w)(next_ref w := Some c)"
      "next_ref w \<notin> snd ` set (get_pool w2)"
    by (rule new_client [OF w(1), of os "sock_fd client" ip port]) blast
  have "live_ok m A w2" using w w2 by (auto simp: live_ok_def pool_ok_def)
  moreover have "heap w2 (next_ref w) = Some c" by (simp add: w2(3))
  ultimately obtain b w3 where add: "ConnectionPool_AddConnection (next_ref w) w2 = (Inr b, w3)" and
    l3: "live_ok m (insert (next_ref w) A) w3" using AddConnection_live w2(4) by blast
  obtain g :: "bool \<Rightarrow> (Server \<times> ('a, 'b) world_scheme, Socket) prog"
    where g: "register_client os client (next_ref w) = bnd (on_snd (ConnectionPool_AddConnection (next_ref w))) g"
    and rest: "\<And>b. safe (srv_inv lst N m (insert (next_ref w) A)) (bnd (g b) (\<lambda>k. andthen (on_snd (drop_conn os (next_ref w))) (ret k)))"
    by (rule safe_register_rest [of "next_ref w" "insert (next_ref w) A" os client, OF insertI1]) blast
  have run: "admit_client os client ip port x = bnd (g b) (\<lambda>k. andthen (on_snd (drop_conn os (next_ref w))) (ret k)) (s, w3)"
    unfolding x admit_client_eval [OF new] by (simp add: bnd_eval g on_snd_eval add)
  have I3: "srv_inv lst N m (insert (next_ref w) A) (s, w3)" using s l3 by (simp add: srv_inv_def)
  show "srv_inv lst N m A (snd (admit_client os client ip port x)) \<and>
      fst (admit_client os client ip port x) \<noteq> Inl (Undefined_behaviour u)"
    using safe_at [OF rest [of b] I3, of u] unfolding run by (auto simp: srv_inv_def live_ok_def)
qed

lemma safe_socket_ops [safe_intros]:
  assumes "sys_stable I"
  shows "safe I (Socket_SetNonBlocking os k)" "safe I (Socket_SetTcpNoDelay os k)" "safe I (Socket_SetReuseAddr os k)"
    "safe I (Socket_SetReusePort os k)" "safe I (Socket_GetPeerIp os k)" "safe I (Socket_GetPeerPort os k)"
    "safe I (Socket_CheckError os r what)" "safe I (Socket_Bind os k ip port)" "safe I (Socket_Listen os k backlog)"
  unfolding Socket_SetNonBlocking_def Socket_SetTcpNoDelay_def Socket_GetPeerIp_def Socket_GetPeerPort_def
    Socket_SetReuseAddr_def Socket_SetReusePort_def Socket_Bind_def Socket_Listen_def Socket_CheckError_def Let_def
  by (rule safe_intros assms exn.distinct | rule safe_bnd)+

lemma live_ok_delete: "live_ok m A w \<Longrightarrow> live_ok m A (snd (Socket_delete os (k, w)))"
  by (rule live_ok_sys_only [OF _ Socket_delete_spec(1)])

lemma srv_inv_delete: "srv_inv lst N m A x \<Longrightarrow> srv_inv lst N m A (case x of (s, w) \<Rightarrow> (s, snd (Socket_delete os (k, w))))"
  by (auto simp: srv_inv_def intro: live_ok_delete)

lemma safe_Accept [safe_intros]: "safe (live_ok m A) (Socket_Accept os k)"
  unfolding Socket_Accept_def accept_setup_def Let_def
  by (rule safe_intros live_ok_delete | assumption | rule safe_bnd)+

lemma safe_prepare_client [safe_intros]: "safe (live_ok m A) (prepare_client os client)"
  unfolding prepare_client_def by (rule safe_intros | rule safe_bnd)+

lemma safe_accept_client [safe_intros]: "safe (srv_inv lst N m A) (accept_client os client)"
  unfolding accept_client_def case_prod_unfold
  by (rule safe_intros safe_modify srv_inv_delete [unfolded case_prod_unfold] | assumption | rule safe_bnd)+

lemma safe_accept_round [safe_intros]: "safe (srv_inv True N m A) (accept_round os)"
  unfolding accept_round_def by (rule safe_intros | rule safe_bnd)+

lemma safe_HandleAccept [safe_intros]: "safe (srv_inv True N m A) (HandleAccept os n)"
  by (induction n) (auto intro!: safe_bnd safe_intros)

section \<open>The main loop\<close>

lemma safe_main_events:
  "\<forall>i \<in> set is. i < N \<Longrightarrow> safe (srv_inv True N m A) (main_events os n is :: (Server \<times> ('k, 'z) world_scheme, unit) prog)"
proof (induction "is")
  case (Cons i "is")
  then have i: "i < N" by simp
  have rest: "safe (srv_inv True N m A) (main_events os n is :: (Server \<times> ('k, 'z) world_scheme, unit) prog)"
    using Cons by simp
  have stop: "safe (srv_inv True N m A) (set_server (\<lambda>s. s\<lparr>srv_running := False\<rparr>) :: (Server \<times> ('k, 'z) world_scheme, unit) prog)"
    by (rule safe_set_server) (simp add: srv_ok_def)
  show ?case
    unfolding main_events.simps Let_def Epoll_GetEvents_def EventLoop_GetEpoll_def
    by (rule safe_intros rest stop | (use i in simp; fail) | rule safe_bnd)+
qed (simp add: safe_basic)

lemma safe_main_round:
  assumes "epoll_wait_ok os"
  shows "safe (srv_inv True 0 m A) (main_round os n)"
proof (rule safe_pointwise)
  fix x :: "Server \<times> ('a, 'b) world_scheme" and u assume I: "srv_inv True 0 m A x"
  obtain s w where x: "x = (s, w)" by force
  then obtain el where el: "main_loop s = Some el" "el_ok el" and w: "live_ok m A w"
    using I by (auto simp: srv_inv_def srv_ok_def)
  let ?r = "wait_reply os el w"
  let ?el = "after_wait ?r el"
  let ?s = "s\<lparr>main_loop := Some ?el\<rparr>"
  let ?N = "nat (rp_ret ?r)"
  note ok = after_wait_ok [OF assms el(2) refl, of w]
  obtain w1 where w1: "sys_only w w1" and wait: "on_epoll (Epoll_Wait os (- 1)) (el, w) =
       (if 0 \<le> rp_ret ?r then Inr (rp_ret ?r) else if rp_errno ?r = EINTR then Inr 0
        else Inl (Runtime_error (''epoll_wait failed: '' @ os_strerror os (rp_errno ?r))), (?el, w1))"
    by (rule on_epoll_Wait [OF assms el(2) refl, of w])
  have J: "srv_inv True ?N m A (?s, w1)"
    using I ok(1,2) live_ok_sys_only [OF w w1] by (auto simp: x srv_inv_def srv_ok_def)
  have weaken: "srv_inv True ?N m A y \<Longrightarrow> srv_inv True 0 m A y" for y :: "Server \<times> ('a, 'b) world_scheme"
    by (auto simp: srv_inv_def srv_ok_def)
  let ?rest = "\<lambda>k. andthen (on_snd (LOG DEBUG (''Main EventLoop: num_events='' @ to_string k)))
         (andthen (main_events os n [0..<nat k]) (ret True)) :: (Server \<times> ('a, 'b) world_scheme, bool) prog"
  have "safe (srv_inv True ?N m A) (?rest k)" if "nat k \<le> ?N" for k
    by (rule safe_intros safe_main_events | (use that in auto; fail))+
  note rest = safe_at [OF this J]
  have run: "main_round os n x = (if 0 \<le> rp_ret ?r then ?rest (rp_ret ?r) (?s, w1)
      else if rp_errno ?r = EINTR then ?rest 0 (?s, w1)
      else (Inl (Runtime_error (''epoll_wait failed: '' @ os_strerror os (rp_errno ?r))), (?s, w1)))"
    by (simp add: x main_round_def bnd_eval on_main_def el(1) wait on_snd_eval gets_eval)
  show "srv_inv True 0 m A (snd (main_round os n x)) \<and> fst (main_round os n x) \<noteq> Inl (Undefined_behaviour u)"
    using rest [of "rp_ret ?r"] rest [of 0] weaken J unfolding run by (auto simp del: andthen_eval)
qed

section \<open>Start and stop\<close>

definition io_inv :: "size_t \<Rightarrow> nat set \<Rightarrow> IOThreadPool \<times> ('k, 'z) world_scheme \<Rightarrow> bool" where
  "io_inv m A = (\<lambda>(p, w). (io_ok p \<and> list_all el_ok (loops p)) \<and> live_ok m A w)"

lemma safe_on_io:
  assumes "safe (io_inv m A) q"
  shows "safe (srv_inv lst N m A) (on_io q)"
proof (rule safe_pointwise)
  fix x :: "Server \<times> ('a, 'b) world_scheme" and u assume I: "srv_inv lst N m A x"
  obtain s w where x: "x = (s, w)" by force
  then obtain p where p: "io_thread_pool s = Some p" "io_inv m A (p, w)"
    using I by (auto simp: srv_inv_def srv_ok_def io_inv_def)
  obtain r p' w' where q: "q (p, w) = (r, (p', w'))" by (metis surj_pair)
  show "srv_inv lst N m A (snd (on_io q x)) \<and> fst (on_io q x) \<noteq> Inl (Undefined_behaviour u)"
    using safe_at [OF assms p(2), of u] I p(1) by (auto simp: x on_io_def q srv_inv_def srv_ok_def io_inv_def)
qed

lemma el_ok_same:
  assumes "map el_epoll ls' = map el_epoll ls" "list_all el_ok ls"
  shows "list_all el_ok ls'"
proof -
  have "list_all el_ok l \<longleftrightarrow> list_all (\<lambda>e. length (ep_events e) = nat (max_events e)) (map el_epoll l)" for l
    by (simp add: list_all_iff el_ok_def)
  with assms show ?thesis by simp
qed

lemma safe_io_Stop [safe_intros]: "safe (io_inv m A) (IOThreadPool_Stop os)"
  unfolding IOThreadPool_Stop_def
proof (rule safe_modify)
  fix x :: "IOThreadPool \<times> ('a, 'b) world_scheme" assume I: "io_inv m A x"
  obtain p w where x: "x = (p, w)" by force
  obtain ls w' where l: "stop_loops os (loops p) w = (ls, w')" by force
  have so: "map el_epoll ls = map el_epoll (loops p)" "sys_only w w'" using stop_loops_spec [OF l] by simp_all
  then have "length ls = length (loops p)" by (metis length_map)
  with so el_ok_same [OF so(1)] I l show
    "io_inv m A (case x of (p, w) \<Rightarrow> case stop_loops os (loops p) w of (ls, w') \<Rightarrow> (p\<lparr>loops := ls, threads := []\<rparr>, w'))"
    by (auto simp: x io_inv_def io_ok_def intro: live_ok_sys_only)
qed

lemma safe_io_Start [safe_intros]: "safe (io_inv m A) (IOThreadPool_Start :: (IOThreadPool \<times> ('k, 'z) world_scheme, unit) prog)"
proof -
  have log: "safe (io_inv m A) (on_snd (LOG lv msg) :: (IOThreadPool \<times> ('k, 'z) world_scheme, unit) prog)" for lv msg
    unfolding io_inv_def by (rule safe_on_snd, (rule safe_intros)+)
  have add: "safe (io_inv m A) (modify (\<lambda>(p, w). (p\<lparr>threads := threads p @ ts\<rparr>, w)) :: (IOThreadPool \<times> ('k, 'z) world_scheme, unit) prog)" for ts
    by (rule safe_modify) (auto simp: io_inv_def io_ok_def)
  have "safe (io_inv m A) (start_threads is :: (IOThreadPool \<times> ('k, 'z) world_scheme, unit) prog)" for "is"
    by (induction "is") (auto intro!: safe_bnd safe_intros log add)
  then show "safe (io_inv m A) (IOThreadPool_Start :: (IOThreadPool \<times> ('k, 'z) world_scheme, unit) prog)"
    unfolding IOThreadPool_Start_def by (intro safe_bnd safe_basic)
qed

lemma safe_close_listen [safe_intros]: "safe (srv_inv False N m A) (close_listen os)"
proof (rule safe_pointwise)
  fix x :: "Server \<times> ('a, 'b) world_scheme" and u assume I: "srv_inv False N m A x"
  obtain s w where x: "x = (s, w)" by force
  show "srv_inv False N m A (snd (close_listen os x)) \<and> fst (close_listen os x) \<noteq> Inl (Undefined_behaviour u)"
  proof (cases "listen_socket s")
    case None
    then show ?thesis using I by (simp add: x close_listen_def prog_simps)
  next
    case (Some k)
    obtain w1 where c: "Socket_Close os (k, w) = (Inr (), (k\<lparr>sock_fd := - 1\<rparr>, w1))" "sys_only w w1"
      by (rule Socket_Close_spec [of os k w])
    have "live_ok m A w1" using I live_ok_sys_only [OF _ c(2)] by (auto simp: x srv_inv_def)
    note live_ok_delete [OF this, of os "k\<lparr>sock_fd := - 1\<rparr>"]
    then show ?thesis
      using I Some c(1) by (auto simp: x close_listen_def prog_simps on_listen_def srv_inv_def srv_ok_def)
  qed
qed

lemma safe_Server_Stop [safe_intros]:
  assumes "iter_ok os"
  shows "safe (srv_inv False N m A) (Server_Stop os :: (Server \<times> ('k, 'z) world_scheme, unit) prog)"
proof -
  have set: "safe (srv_inv False N m A) (set_server (\<lambda>s. s\<lparr>srv_running := False\<rparr>) :: (Server \<times> ('k, 'z) world_scheme, unit) prog)"
    "safe (srv_inv False N m A) (set_server (\<lambda>s. s\<lparr>signal_fd := - 1\<rparr>) :: (Server \<times> ('k, 'z) world_scheme, unit) prog)"
    by (rule safe_set_server, simp add: srv_ok_def)+
  show ?thesis
    unfolding Server_Stop_def by (rule safe_intros set safe_on_io assms | rule safe_bnd)+
qed

lemma safe_SignalHandler: "safe (srv_inv lst N m A) (SignalHandler os sig :: (Server \<times> ('k, 'z) world_scheme, unit) prog)"
proof -
  have set: "safe (srv_inv lst N m A) (set_server (\<lambda>s. s\<lparr>stop_requested := True\<rparr>) :: (Server \<times> ('k, 'z) world_scheme, unit) prog)"
    by (rule safe_set_server) (simp add: srv_ok_def)
  show ?thesis
    unfolding SignalHandler_def by (rule safe_intros set | rule safe_bnd)+
qed

text \<open>
  What happens between two tests of the condition of the main loop: the thread of an event
  loop starts or makes a round, the heartbeat thread checks the connections, or a signal
  arrives.
\<close>

inductive other_step :: "'k os \<Rightarrow> nat \<Rightarrow> Server \<times> ('k, 'z) world_scheme \<Rightarrow> Server \<times> ('k, 'z) world_scheme \<Rightarrow> bool" for os n where
  loop_starts: "io_thread_pool s = Some p \<Longrightarrow> i < length (loops p) \<Longrightarrow>
    other_step os n (s, w) (s\<lparr>io_thread_pool := Some (p\<lparr>loops := (loops p)[i := (loops p ! i)\<lparr>thread_id := t, el_running := True\<rparr>]\<rparr>)\<rparr>, w)"
| loop_goes: "io_thread_pool s = Some p \<Longrightarrow> i < length (loops p) \<Longrightarrow> loop_round os n (loops p ! i, w) = (r, (el, w')) \<Longrightarrow>
    other_step os n (s, w) (s\<lparr>io_thread_pool := Some (p\<lparr>loops := (loops p)[i := el]\<rparr>)\<rparr>, w')"
| heartbeat: "other_step os n (s, w) (s, snd (heartbeat_round os w))"
| signalled: "other_step os n x (snd (SignalHandler os sig x))"

lemma other_step_inv:
  assumes "recv_ok os" "send_ok os" "epoll_wait_ok os" "iter_ok os" "srv_inv lst N m A x" "other_step os n x y"
  shows "srv_inv lst N m A y"
  using assms(6)
proof cases
  case (loop_starts s p i w t)
  then show ?thesis
    using assms(5) by (auto simp: srv_inv_def srv_ok_def io_ok_def list_all_length nth_list_update el_ok_def)
next
  case (loop_goes s p i w r el w')
  have p: "el_ok (loops p ! i)" "live_ok m A w"
    using assms(5) loop_goes by (auto simp: srv_inv_def srv_ok_def list_all_length)
  then have "el_ok el \<and> live_ok m A w'"
    using safe_at [OF safe_loop_round [OF assms(1-3), of m A n], of "(loops p ! i, w)"] loop_goes(5) by simp
  then show ?thesis
    using assms(5) loop_goes by (auto simp: srv_inv_def srv_ok_def io_ok_def list_all_length nth_list_update)
next
  case (heartbeat s w)
  then show ?thesis
    using assms(5) safe_at [OF safe_pool_ops(1) [OF assms(4)], of m A w] by (simp add: srv_inv_def)
next
  case (signalled sig)
  then show ?thesis using safe_at [OF safe_SignalHandler assms(5), of os sig] by simp
qed

lemma other_steps_inv:
  assumes "recv_ok os" "send_ok os" "epoll_wait_ok os" "iter_ok os" "srv_inv lst N m A x" "(other_step os n)\<^sup>*\<^sup>* x y"
  shows "srv_inv lst N m A y"
  using assms(6,5) by induction (auto intro: other_step_inv [OF assms(1-4)])

lemma srv_inv_stop: "srv_inv lst N m A x \<Longrightarrow> srv_inv False N m A x"
  by (auto simp: srv_inv_def srv_ok_def)

lemma main_while_safe:
  fixes others :: "(Server \<times> ('k, 'z) world_scheme \<Rightarrow> Server \<times> ('k, 'z) world_scheme) list"
  assumes "recv_ok os" "send_ok os" "epoll_wait_ok os" "iter_ok os"
  shows "\<forall>f \<in> set others. \<forall>x. (other_step os n)\<^sup>*\<^sup>* x (f x) \<Longrightarrow>
    triple (srv_inv True 0 m A) (main_while os n others) (\<lambda>_. srv_inv False 0 m A) (srv_inv False 0 m A)"
proof (induction others)
  case Nil
  show ?case by (auto simp: triple_def prog_simps intro: srv_inv_stop)
next
  case (Cons f fs)
  let ?I = "srv_inv True 0 m A :: Server \<times> ('k, 'z) world_scheme \<Rightarrow> bool" and ?J = "srv_inv False 0 m A :: Server \<times> ('k, 'z) world_scheme \<Rightarrow> bool"
  have step: "triple ?I (modify f) (\<lambda>_. ?I) ?J"
    by (rule triple_modify, rule other_steps_inv [OF assms]) (use Cons.prems in auto)
  have bye: "triple ?I (andthen (on_snd (LOG INFO ''Main EventLoop stopped'')) (Server_Stop os)) (\<lambda>_. ?J) ?J"
  proof (rule triple_conseq)
    have "safe ?J (andthen (on_snd (LOG INFO ''Main EventLoop stopped'')) (Server_Stop os))"
      by (rule safe_intros assms)+
    then show "triple ?J (andthen (on_snd (LOG INFO ''Main EventLoop stopped'')) (Server_Stop os)) (\<lambda>_. ?J) ?J"
      by (simp add: safe_def)
  qed (auto intro: srv_inv_stop)
  have go: "triple ?I (main_round os n) (\<lambda>_. ?I) ?J"
    by (rule triple_conseq [of ?I _ "\<lambda>_. ?I" ?I]) (use safe_main_round [OF assms(3)] in \<open>auto simp: safe_def intro: srv_inv_stop\<close>)
  have IH: "triple ?I (main_while os n fs) (\<lambda>_. ?J) ?J" using Cons by simp
  have get: "triple ?I (gets fst) (\<lambda>_. ?I) ?J" by (rule triple_gets)
  show ?case
    unfolding main_while.simps Let_def
  proof (rule triple_andthen [OF step], rule triple_bnd [OF get])
    fix s
    show "triple ?I (if srv_running s \<and> \<not> stop_requested s
        then bnd (main_round os n) (\<lambda>go. if go then main_while os n fs
          else andthen (on_snd (LOG INFO ''Main EventLoop stopped'')) (Server_Stop os))
        else andthen (on_snd (LOG INFO ''Main EventLoop stopped'')) (Server_Stop os)) (\<lambda>_. ?J) ?J"
      using bye triple_bnd [OF go, of "\<lambda>go. if go then main_while os n fs
          else andthen (on_snd (LOG INFO ''Main EventLoop stopped'')) (Server_Stop os)"] IH by simp
  qed
qed

lemma safe_triple: "safe I p \<Longrightarrow> (\<And>x. I x \<Longrightarrow> J x) \<Longrightarrow> triple I p (\<lambda>_. I) J"
  unfolding safe_def by (erule triple_conseq) auto

lemma triple_safe: "safe J p \<Longrightarrow> (\<And>x. I x \<Longrightarrow> J x) \<Longrightarrow> triple I p (\<lambda>_. J) J"
  unfolding safe_def by (erule triple_conseq) auto

lemma MainEventLoop_safe:
  fixes others :: "(Server \<times> ('k, 'z) world_scheme \<Rightarrow> Server \<times> ('k, 'z) world_scheme) list"
  assumes "recv_ok os" "send_ok os" "epoll_wait_ok os" "iter_ok os"
    "\<forall>f \<in> set others. \<forall>x. (other_step os n)\<^sup>*\<^sup>* x (f x)"
  shows "triple (srv_inv True 0 m A) (MainEventLoop os n others) (\<lambda>_. srv_inv False 0 m A) (srv_inv False 0 m A)"
proof -
  let ?I = "srv_inv True 0 m A :: Server \<times> ('k, 'z) world_scheme \<Rightarrow> bool" and ?J = "srv_inv False 0 m A :: Server \<times> ('k, 'z) world_scheme \<Rightarrow> bool"
  have log: "triple ?I (on_snd (LOG lv msg)) (\<lambda>_. ?I) ?J" for lv msg
    by (rule safe_triple, (rule safe_intros)+, rule srv_inv_stop)
  have logJ: "triple ?I (on_snd (LOG lv msg)) (\<lambda>_. ?J) ?J" for lv msg
    by (rule triple_safe, (rule safe_intros)+, rule srv_inv_stop)
  have lst: "triple ?I the_listen (\<lambda>_. ?I) ?J"
    by (auto simp: triple_def the_listen_def srv_inv_def srv_ok_def split: prod.split option.split)
  have get: "triple ?I (gets fst) (\<lambda>_. ?I) ?J" by (rule triple_gets)
  have loop: "triple ?I (bnd the_listen (\<lambda>k. andthen (on_snd (LOG INFO (''Main EventLoop: listen_fd='' @ to_string (Socket_GetFd k))))
                  (main_while os n others))) (\<lambda>_. ?J) ?J"
    by (rule triple_bnd [OF lst], rule triple_andthen [OF log], rule main_while_safe [OF assms])
  show ?thesis
    unfolding MainEventLoop_def
  proof (rule triple_andthen [OF log], rule triple_bnd [OF get])
    fix s
    show "triple ?I (if main_loop s = None then on_snd (LOG ERROR ''Main EventLoop: main_loop_ is null'')
     else if listen_socket s = None then on_snd (LOG ERROR ''Main EventLoop: listen_socket_ is null'')
     else andthen (on_snd (LOG INFO ''Main EventLoop: all pointers are valid''))
         (bnd the_listen (\<lambda>k.
          andthen (on_snd (LOG INFO (''Main EventLoop: listen_fd='' @ to_string (Socket_GetFd k))))
                  (main_while os n others)))) (\<lambda>_. ?J) ?J"
      using logJ triple_andthen [OF log loop] by simp
  qed
qed

lemma Server_Start_safe:
  fixes others :: "(Server \<times> ('k, 'z) world_scheme \<Rightarrow> Server \<times> ('k, 'z) world_scheme) list"
  assumes "recv_ok os" "send_ok os" "epoll_wait_ok os" "iter_ok os"
    "\<forall>f \<in> set others. \<forall>x. (other_step os n)\<^sup>*\<^sup>* x (f x)"
  shows "triple (srv_inv True 0 m A) (Server_Start os n others) (\<lambda>_. srv_inv False 0 m A) (srv_inv False 0 m A)"
proof -
  let ?I = "srv_inv True 0 m A :: Server \<times> ('k, 'z) world_scheme \<Rightarrow> bool" and ?J = "srv_inv False 0 m A :: Server \<times> ('k, 'z) world_scheme \<Rightarrow> bool"
  have set: "triple ?I (set_server (\<lambda>s. s\<lparr>srv_running := True\<rparr>)) (\<lambda>_. ?I) ?J"
    by (rule safe_triple, rule safe_set_server, simp add: srv_ok_def, rule srv_inv_stop)
  have log: "triple ?I (on_snd (LOG lv msg)) (\<lambda>_. ?I) ?J" for lv msg
    by (rule safe_triple, (rule safe_intros)+, rule srv_inv_stop)
  have io: "triple ?I (on_io IOThreadPool_Start) (\<lambda>_. ?I) ?J"
    by (rule safe_triple, rule safe_on_io, rule safe_intros, rule srv_inv_stop)
  have bye: "triple ?J (on_snd (LOG INFO ''Server started'')) (\<lambda>_. ?J) ?J"
    by (rule safe_triple, (rule safe_intros)+)
  have get: "triple ?I (gets fst) (\<lambda>_. ?I) ?J" by (rule triple_gets)
  have logJ: "triple ?I (on_snd (LOG WARN ''Server already running'')) (\<lambda>_. ?J) ?J"
    by (rule triple_safe, (rule safe_intros)+, rule srv_inv_stop)
  have run: "triple ?I (andthen (set_server (\<lambda>s. s\<lparr>srv_running := True\<rparr>))
         (andthen (on_snd (LOG INFO ''Server starting...''))
         (andthen (on_io IOThreadPool_Start)
         (andthen (on_snd (LOG INFO ''IO thread pool started''))
         (andthen (on_snd (LOG INFO ''Main EventLoop will run in main thread''))
         (andthen (MainEventLoop os n others)
                  (on_snd (LOG INFO ''Server started'')))))))) (\<lambda>_. ?J) ?J"
    by (rule triple_andthen [OF set] triple_andthen [OF log] triple_andthen [OF io]
        triple_andthen [OF MainEventLoop_safe [OF assms]] bye)+
  show ?thesis
    unfolding Server_Start_def by (rule triple_bnd [OF get]) (use run logJ in simp)
qed

section \<open>Initialisation\<close>

text \<open>Before the pool is initialised: \<open>P\<close> says which parts of the server exist.\<close>

definition init_inv :: "(Server \<Rightarrow> bool) \<Rightarrow> Server \<times> ('k, 'z) world_scheme \<Rightarrow> bool" where
  "init_inv P = (\<lambda>(s, w). P s \<and> fresh_world w)"

text \<open>At every moment, the pool is in order and within the limit.\<close>

definition bounded :: "size_t \<Rightarrow> Server \<times> ('k, 'z) world_scheme \<Rightarrow> bool" where
  "bounded m = (\<lambda>(s, w). cp_inv w \<and> length (get_pool w) \<le> m)"

lemma fresh_bounded: "init_inv P x \<Longrightarrow> bounded m x"
  by (auto simp: init_inv_def bounded_def fresh_world_def cp_inv_def get_pool_def tbl_ok_def ConnectionPool_default_def)

lemma srv_bounded: "srv_inv lst N m A x \<Longrightarrow> bounded m x"
  by (auto simp: srv_inv_def bounded_def live_ok_def pool_ok_def cp_inv_def)

lemma init_snd: "safe fresh_world p \<Longrightarrow> triple (init_inv P) (on_snd p) (\<lambda>_. init_inv P) (bounded m)"
  by (rule safe_triple) (auto simp: init_inv_def intro: safe_on_snd fresh_bounded [of P, unfolded init_inv_def])

lemma init_set: "(\<And>s. P s \<Longrightarrow> Q (f s)) \<Longrightarrow> triple (init_inv P) (set_server f) (\<lambda>_. init_inv Q) (bounded m)"
  unfolding set_server_def by (rule triple_modify) (auto simp: init_inv_def)

lemma fresh_sys_only: "fresh_world w \<Longrightarrow> sys_only w w' \<Longrightarrow> fresh_world w'"
  by (simp add: fresh_world_def)

text \<open>The listening socket.\<close>

definition no_parts :: "Server \<Rightarrow> bool" where
  "no_parts s \<longleftrightarrow> main_loop s = None \<and> io_thread_pool s = None"

lemma safe_Socket_Create:
  "safe (\<lambda>(k, w). True \<and> fresh_world w) (Socket_Create os :: (Socket \<times> ('k, 'z) world_scheme, unit) prog)"
proof -
  let ?I = "\<lambda>(k :: Socket, w :: ('k, 'z) world_scheme). True \<and> fresh_world w"
  have snd: "safe fresh_world p \<Longrightarrow> safe ?I (on_snd p)" for p :: "(('k, 'z) world_scheme, 'b) prog"
    by (rule safe_on_snd)
  have set: "safe ?I (modify (\<lambda>(s, w). (s\<lparr>sock_fd := fd\<rparr>, w)))" for fd by (rule safe_modify) auto
  show ?thesis
    unfolding Socket_Create_def
    by (intro safe_bnd safe_andthen safe_basic snd set safe_on_snd) (rule safe_intros)+
qed

lemma init_listen_safe:
  fixes os :: "'k os"
  shows "triple (init_inv (\<lambda>s. no_parts s \<and> listen_socket s = None))
    (init_listen os c :: (Server \<times> ('k, 'z) world_scheme, unit) prog)
    (\<lambda>_. init_inv (\<lambda>s. no_parts s \<and> listen_socket s \<noteq> None)) (bounded m)"
proof -
  let ?P = "\<lambda>s. no_parts s \<and> listen_socket s = None" and ?Q = "\<lambda>s. no_parts s \<and> listen_socket s \<noteq> None"
  let ?E = "bounded m :: Server \<times> ('k, 'z) world_scheme \<Rightarrow> bool"
  have install: "triple (init_inv ?P) (install_listen os) (\<lambda>_. init_inv ?Q) ?E"
    unfolding install_listen_def by (rule triple_modify) (auto simp: init_inv_def no_parts_def)
  have create: "triple (init_inv ?Q) (on_listen (Socket_Create os)) (\<lambda>_. init_inv ?Q) ?E"
    unfolding triple_def
  proof (intro allI impI)
    fix x :: "Server \<times> ('k, 'z) world_scheme" assume I: "init_inv ?Q x"
    obtain s w k where x: "x = (s, w)" "listen_socket s = Some k" "no_parts s" "fresh_world w"
      using I by (cases x) (auto simp: init_inv_def)
    obtain r k' w' where c: "Socket_Create os (k, w) = (r, (k', w'))" by (metis surj_pair)
    have w': "fresh_world w'" "r \<noteq> Inl (Undefined_behaviour u)" for u
      using safe_at [OF safe_Socket_Create, of "(k, w)" os u] x(4) c by simp_all
    have J: "init_inv ?Q (s\<lparr>listen_socket := Some k'\<rparr>, w')" using x(3) w'(1) by (simp add: init_inv_def no_parts_def)
    from J fresh_bounded [OF J, of m] w'(2) show "case on_listen (Socket_Create os) x of (Inr a, s') \<Rightarrow> init_inv ?Q s'
        | (Inl e, s') \<Rightarrow> (\<forall>u. e \<noteq> Undefined_behaviour u) \<and> bounded m s'"
      by (cases r) (auto simp: on_listen_def x(1,2) c)
  qed
  have lst: "triple (init_inv ?Q) the_listen (\<lambda>_. init_inv ?Q) ?E"
    by (auto simp: triple_def the_listen_def init_inv_def split: prod.split option.split)
  show ?thesis
    unfolding init_listen_def
    by (rule triple_andthen [OF install] triple_andthen [OF create] triple_bnd [OF lst] triple_andthen [OF init_snd]
        init_snd safe_intros)+
qed

text \<open>The event loops: each array of events has the size that was asked for.\<close>

lemma Epoll_new_array:
  "Epoll_new os maxev w = (Inr ep, w') \<Longrightarrow> length (ep_events ep) = nat maxev \<and> max_events ep = maxev"
  by (auto simp: Epoll_new_def Epoll_CheckError_def prog_simps Let_def split: if_splits)

lemma EventLoop_new_safe: "triple fresh_world (EventLoop_new os t) (\<lambda>el w. el_ok el \<and> fresh_world w) fresh_world"
proof -
  have ep: "safe fresh_world (Epoll_new os 102400)"
    unfolding Epoll_new_def by (rule safe_intros | rule safe_bnd)+
  have rest: "safe fresh_world (on_throw
       (bnd (syscall os Sys_eventfd) (\<lambda>r.
        andthen (doif (rp_ret r \<noteq> - 1) (Epoll_AddFd os ep (rp_ret r) EPOLLIN))
       (andthen (LOG DEBUG (''EventLoop created in thread: '' @ to_string (int (os_thread_hash os t))))
          (ret \<lparr>el_epoll = ep, el_running = False, thread_id = t, is_main_reactor = False,
                wakeup_fd = rp_ret r\<rparr>)))) (\<lambda>w. snd (Epoll_delete os ep w)))" for ep
    unfolding Epoll_AddFd_def
    by (rule safe_intros fresh_sys_only [OF _ Epoll_delete_spec(1)] | assumption | rule safe_bnd)+
  have all: "safe fresh_world (EventLoop_new os t)"
    unfolding EventLoop_new_def by (rule safe_bnd [OF ep rest])
  have "el_ok el" if run: "EventLoop_new os t w = (Inr el, w')" for el w w'
  proof -
    obtain r1 w1 where 1: "Epoll_new os 102400 w = (r1, w1)" by force
    then obtain ep where r1: "r1 = Inr ep" using run by (cases r1) (simp_all add: EventLoop_new_def prog_simps)
    have "el_epoll el = ep"
      using run 1 r1 by (auto simp: EventLoop_new_def prog_simps split: prod.splits sum.splits)
    with Epoll_new_array [OF 1 [unfolded r1]] show ?thesis by (simp add: el_ok_def)
  qed
  with all show ?thesis unfolding safe_def by (intro tripleI) (auto dest: triple_InrD triple_InlD)
qed

lemma make_loops_safe:
  "list_all el_ok acc \<Longrightarrow> triple fresh_world (make_loops os t n acc :: (('k, 'z) world_scheme, EventLoop list) prog)
     (\<lambda>ls w. list_all el_ok ls \<and> length ls = length acc + n \<and> fresh_world w) fresh_world"
proof (induction n arbitrary: acc)
  case 0
  then show ?case by (simp add: triple_def prog_simps)
next
  case (Suc n)
  have new: "triple fresh_world (on_throw (EventLoop_new os t) (destroy_loops os acc)) (\<lambda>el w. el_ok el \<and> fresh_world w) fresh_world"
    by (rule triple_on_throw [OF EventLoop_new_safe], rule fresh_sys_only [OF _ destroy_loops_spec(1)])
  have rest: "triple (\<lambda>w. el_ok el \<and> fresh_world w) (make_loops os t n (acc @ [el]) :: (('k, 'z) world_scheme, EventLoop list) prog)
     (\<lambda>ls w. list_all el_ok ls \<and> length ls = length acc + Suc n \<and> fresh_world w) fresh_world" for el
  proof (cases "el_ok el")
    case True
    then have "list_all el_ok (acc @ [el])" using Suc.prems by simp
    from Suc.IH [OF this] show ?thesis by (rule triple_conseq) simp_all
  qed (simp add: triple_def)
  show ?case unfolding make_loops.simps by (rule triple_bnd [OF new rest])
qed

lemma IOThreadPool_new_safe:
  assumes "n < 2 ^ 63"
  shows "triple fresh_world (IOThreadPool_new os t n) (\<lambda>p w. (io_ok p \<and> list_all el_ok (loops p)) \<and> fresh_world w) fresh_world"
proof -
  let ?n = "if n = 0 then 1 else n"
  let ?Q = "\<lambda>ls w. list_all el_ok ls \<and> length ls = ?n \<and> fresh_world w"
  have log: "triple fresh_world (LOG INFO (''Creating IO thread pool with '' @ to_string (int ?n) @ '' threads'')) (\<lambda>_. fresh_world) fresh_world"
    by (rule safe_triple, (rule safe_intros)+)
  have make: "triple fresh_world (make_loops os t ?n []) ?Q fresh_world"
    using make_loops_safe [of "[]" os t ?n] by simp
  have fin: "triple (?Q ls) (ret \<lparr>loops = ls, threads = [], next_loop_idx = 0, main_reactor_func = False\<rparr>)
      (\<lambda>p w. (io_ok p \<and> list_all el_ok (loops p)) \<and> fresh_world w) fresh_world" for ls
    using assms by (auto simp: triple_def prog_simps io_ok_def)
  show ?thesis
    unfolding IOThreadPool_new_def Let_def
    by (rule triple_andthen [OF log], rule triple_bnd [OF make], rule fin)
qed

text \<open>\<open>triple_snd\<close> moves a triple on the process state to the server.\<close>

lemma triple_snd:
  assumes "triple fresh_world p (\<lambda>a w. R a \<and> fresh_world w) fresh_world"
  shows "triple (init_inv P) (on_snd p) (\<lambda>a. init_inv (\<lambda>s. P s \<and> R a)) (bounded m)"
proof (rule tripleI)
  fix x a x' assume "init_inv P x" "on_snd p x = (Inr a, x')"
  then show "init_inv (\<lambda>s. P s \<and> R a) x'"
    using triple_InrD [OF assms] by (fastforce simp: init_inv_def on_snd_def split: prod.splits)
next
  fix x e x' assume I: "init_inv P x" "on_snd p x = (Inl e, x')"
  obtain s w w' where x: "x = (s, w)" "x' = (s, w')" "p w = (Inl e, w')" "P s" "fresh_world w"
    using I by (auto simp: init_inv_def on_snd_def split: prod.splits)
  from triple_InlD [OF assms x(5,3)] x(2,4) show "(\<forall>u. e \<noteq> Undefined_behaviour u) \<and> bounded m x'"
    using fresh_bounded [of P x' m] by (auto simp: init_inv_def)
qed

lemma init_main_loop_safe:
  fixes os :: "'k os"
  shows "triple (init_inv (\<lambda>s. no_parts s \<and> listen_socket s \<noteq> None))
    (init_main_loop os t :: (Server \<times> ('k, 'z) world_scheme, unit) prog)
    (\<lambda>_. init_inv (\<lambda>s. io_thread_pool s = None \<and> (\<exists>el. main_loop s = Some el \<and> el_ok el) \<and> listen_socket s \<noteq> None)) (bounded m)"
proof -
  let ?Q = "\<lambda>s. no_parts s \<and> listen_socket s \<noteq> None"
  let ?R = "\<lambda>s. io_thread_pool s = None \<and> (\<exists>el. main_loop s = Some el \<and> el_ok el) \<and> listen_socket s \<noteq> None"
  let ?E = "bounded m :: Server \<times> ('k, 'z) world_scheme \<Rightarrow> bool"
  have new: "triple (init_inv ?Q) (on_snd (EventLoop_new os t)) (\<lambda>el. init_inv (\<lambda>s. ?Q s \<and> el_ok el)) ?E"
    by (rule triple_snd [OF EventLoop_new_safe])
  have install: "triple (init_inv (\<lambda>s. ?Q s \<and> el_ok el)) (install_main os el) (\<lambda>_. init_inv ?R) ?E" for el
    unfolding install_main_def by (rule triple_modify) (auto simp: init_inv_def no_parts_def)
  have set: "triple (init_inv ?R) (set_server (\<lambda>s. s\<lparr>main_loop := map_option (EventLoop_SetMainReactor True) (main_loop s)\<rparr>)) (\<lambda>_. init_inv ?R) ?E"
    by (rule init_set) (auto simp: EventLoop_SetMainReactor_def el_ok_def)
  have parts: "triple (init_inv ?R) the_main (\<lambda>_. init_inv ?R) ?E" "triple (init_inv ?R) the_listen (\<lambda>_. init_inv ?R) ?E"
    by (auto simp: triple_def the_main_def the_listen_def init_inv_def split: prod.split option.split)
  show ?thesis
    unfolding init_main_loop_def
    by (rule triple_bnd [OF new], rule triple_andthen [OF install], rule triple_andthen [OF set],
        rule triple_bnd [OF parts(1)], rule triple_bnd [OF parts(2)])
       (rule triple_andthen [OF init_snd] init_snd safe_intros)+
qed

text \<open>
  The sizes of the two memory pools fit: the pool of the connections has a block of 4096 bytes
  for each of them, the other one is given by the configuration.
\<close>

definition sizes_fit :: "Config \<Rightarrow> bool" where
  "sizes_fit c \<longleftrightarrow> 4096 * cfg_max_connections c < 2 ^ 64 \<and> max (cfg_pool_block_size c) 8 * cfg_pool_block_count c < 2 ^ 64"

lemma ConnectionPool_Init_safe:
  assumes "new_array_ok (os_new_array os)" "4096 * m < 2 ^ 64"
  shows "triple (init_inv (srv_ok True 0)) (on_snd (ConnectionPool_Init os m timeout)) (\<lambda>_. srv_inv True 0 m {}) (bounded m)"
proof (rule tripleI)
  fix x a x' assume "init_inv (srv_ok True 0) x" "on_snd (ConnectionPool_Init os m timeout) x = (Inr a, x')"
  then show "srv_inv True 0 m {} x'"
    using Init_pool_ok [of "snd x" m os timeout] by (auto simp: init_inv_def srv_inv_def live_ok_def on_snd_def split: prod.splits)
next
  fix x e x' assume I: "init_inv (srv_ok True 0) x" "on_snd (ConnectionPool_Init os m timeout) x = (Inl e, x')"
  then have "fst (ConnectionPool_Init os m timeout (snd x)) = Inl e"
    by (auto simp: on_snd_def split: prod.splits)
  then have "\<forall>u. e \<noteq> Undefined_behaviour u"
    using MemoryPool_new_defined [OF assms(1), of 4096 m] assms(2)
    by (auto simp: ConnectionPool_Init_def prog_simps split: sum.splits)
  moreover have "bounded m x'"
    using Init_pool_ok [of "snd x" m os timeout] I
    by (auto simp: init_inv_def bounded_def pool_ok_def cp_inv_def on_snd_def split: prod.splits)
  ultimately show "(\<forall>u. e \<noteq> Undefined_behaviour u) \<and> bounded m x'" by blast
qed

lemma srv_snd: "safe (live_ok m A) p \<Longrightarrow> triple (srv_inv lst N m A) (on_snd p) (\<lambda>_. srv_inv lst N m A) (bounded m)"
  by (rule safe_triple [OF safe_srv_snd]) (auto intro: srv_bounded)

lemma init_pools_safe:
  fixes os :: "'k os"
  assumes "os_cpus os < 2 ^ 63" "iter_ok os" "new_array_ok (os_new_array os)" "sizes_fit c"
  shows "triple (init_inv (\<lambda>s. io_thread_pool s = None \<and> (\<exists>el. main_loop s = Some el \<and> el_ok el) \<and> listen_socket s \<noteq> None))
    (init_pools os t c :: (Server \<times> ('k, 'z) world_scheme, unit) prog)
    (\<lambda>_. srv_inv True 0 (cfg_max_connections c) {}) (bounded (cfg_max_connections c))"
proof -
  let ?R = "\<lambda>s. io_thread_pool s = None \<and> (\<exists>el. main_loop s = Some el \<and> el_ok el) \<and> listen_socket s \<noteq> None"
  let ?m = "cfg_max_connections c"
  let ?E = "bounded ?m :: Server \<times> ('k, 'z) world_scheme \<Rightarrow> bool"
  let ?n = "if 1 < os_cpus os then os_cpus os - 1 else 1"
  let ?new_pool = "MemoryPool_new (os_new_array os) (cfg_pool_block_size c) (cfg_pool_block_count c)"
  have set: "triple (init_inv ?R) (set_server (\<lambda>s. s\<lparr>srv_memory_pool := Some mp\<rparr>)) (\<lambda>_. init_inv ?R) ?E" for mp
    by (rule init_set) simp
  have "?n < 2 ^ 63" using assms(1) by auto
  from triple_snd [OF IOThreadPool_new_safe [OF this]]
  have new: "triple (init_inv ?R) (on_snd (IOThreadPool_new os t ?n))
      (\<lambda>p. init_inv (\<lambda>s. ?R s \<and> io_ok p \<and> list_all el_ok (loops p))) ?E" .
  have install: "triple (init_inv (\<lambda>s. ?R s \<and> io_ok p \<and> list_all el_ok (loops p))) (install_io os p) (\<lambda>_. init_inv (srv_ok True 0)) ?E" for p
    unfolding install_io_def by (rule triple_modify) (auto simp: init_inv_def srv_ok_def)
  have log: "triple (init_inv P) (on_snd (LOG lv msg)) (\<lambda>_. init_inv P) ?E" for lv msg P
    by (rule init_snd, (rule safe_intros)+)
  have beat: "triple (srv_inv True 0 ?m {}) (on_snd ConnectionPool_StartHeartbeatCheck) (\<lambda>_. srv_inv True 0 ?m {}) ?E"
    by (rule srv_snd, rule safe_pool_ops(3) [OF assms(2)])
  have bye: "triple (srv_inv True 0 ?m {}) (on_snd (LOG lv msg)) (\<lambda>_. srv_inv True 0 ?m {}) ?E" for lv msg
    by (rule srv_snd, (rule safe_intros)+)
  show ?thesis
  proof (cases ?new_pool)
    case (Inl e)
    then have "\<forall>u. e \<noteq> Undefined_behaviour u"
      using MemoryPool_new_defined [OF assms(3), of "cfg_pool_block_size c" "cfg_pool_block_count c"] assms(4)
      by (auto simp: sizes_fit_def)
    then show ?thesis by (simp add: init_pools_def Inl triple_def prog_simps fresh_bounded)
  next
    case (Inr mp)
    have fits: "4096 * ?m < 2 ^ 64" using assms(4) by (simp add: sizes_fit_def)
    show ?thesis
      unfolding init_pools_def Inr sum.case Let_def
      by (rule triple_andthen [OF set], rule triple_andthen [OF log], rule triple_andthen [OF log],
          rule triple_bnd [OF new], rule triple_andthen [OF install], rule triple_andthen [OF log],
          rule triple_andthen [OF ConnectionPool_Init_safe [OF assms(3) fits]], rule triple_andthen [OF beat], rule bye)
  qed
qed

lemma init_signals_safe:
  fixes os :: "'k os"
  shows "triple (srv_inv True 0 m {}) (init_signals os :: (Server \<times> ('k, 'z) world_scheme, unit) prog)
    (\<lambda>_. srv_inv True 0 m {}) (bounded m)"
proof -
  have set: "safe (srv_inv True 0 m {}) (set_server (\<lambda>s. s\<lparr>signal_fd := fd\<rparr>) :: (Server \<times> ('k, 'z) world_scheme, unit) prog)" for fd
    by (rule safe_set_server) (simp add: srv_ok_def)
  have "safe (srv_inv True 0 m {}) (init_signals os :: (Server \<times> ('k, 'z) world_scheme, unit) prog)"
    unfolding init_signals_def by (rule safe_intros set | rule safe_bnd)+
  then show ?thesis by (rule safe_triple) (rule srv_bounded)
qed

lemma Server_Init_safe:
  fixes os :: "'k os" and w :: "('k, 'z) world_scheme"
  assumes "os_cpus os < 2 ^ 63" "iter_ok os" "new_array_ok (os_new_array os)" "sizes_fit c"
  shows "triple (init_inv (\<lambda>s. no_parts s \<and> listen_socket s = None \<and> \<not> srv_running s))
    (Server_Init os t c :: (Server \<times> ('k, 'z) world_scheme, unit) prog)
    (\<lambda>_. srv_inv True 0 (cfg_max_connections c) {}) (bounded (cfg_max_connections c))"
proof -
  let ?P = "\<lambda>s. no_parts s \<and> listen_socket s = None \<and> \<not> srv_running s"
  let ?E = "bounded (cfg_max_connections c) :: Server \<times> ('k, 'z) world_scheme \<Rightarrow> bool"
  let ?S = "\<lambda>_. srv_inv True 0 (cfg_max_connections c) {} :: Server \<times> ('k, 'z) world_scheme \<Rightarrow> bool"
  have get: "triple (init_inv ?P) (gets fst) (\<lambda>s x. \<not> srv_running s \<and> init_inv ?P x) ?E"
    by (rule triple_gets) (auto simp: init_inv_def)
  have set: "triple (init_inv ?P) (set_server (\<lambda>s. s\<lparr>srv_config := c, srv_running := False, stop_requested := False,
                     logger_level := cfg_log_level c\<rparr>)) (\<lambda>_. init_inv (\<lambda>s. no_parts s \<and> listen_socket s = None)) ?E"
    by (rule init_set) (simp add: no_parts_def)
  have banner: "triple (init_inv P) (on_snd (init_banner c)) (\<lambda>_. init_inv P) ?E" for P
    unfolding init_banner_def by (rule init_snd, (rule safe_intros)+)
  have run: "triple (init_inv ?P) (andthen (set_server (\<lambda>s. s\<lparr>srv_config := c, srv_running := False, stop_requested := False,
                     logger_level := cfg_log_level c\<rparr>))
         (andthen (on_snd (init_banner c))
         (andthen (init_listen os c)
         (andthen (init_main_loop os t)
         (andthen (init_pools os t c)
                  (init_signals os)))))) ?S ?E"
    by (rule triple_andthen [OF set], rule triple_andthen [OF banner], rule triple_andthen [OF init_listen_safe],
        rule triple_andthen [OF init_main_loop_safe], rule triple_andthen [OF init_pools_safe [OF assms]], rule init_signals_safe)
  show ?thesis
    unfolding Server_Init_def
  proof (rule triple_bnd [OF get])
    fix s
    show "triple (\<lambda>x. \<not> srv_running s \<and> init_inv ?P x)
      (if srv_running s then on_snd (LOG WARN ''Server already initialized'')
       else andthen (set_server (\<lambda>s. s\<lparr>srv_config := c, srv_running := False, stop_requested := False,
                     logger_level := cfg_log_level c\<rparr>))
         (andthen (on_snd (init_banner c))
         (andthen (init_listen os c)
         (andthen (init_main_loop os t)
         (andthen (init_pools os t c)
                  (init_signals os)))))) ?S ?E"
      using run by (cases "srv_running s") (simp_all add: triple_def)
  qed
qed

text \<open>The command line: a bad number throws, which is defined behaviour.\<close>

lemma parse_args_defined: "parse_args args c \<noteq> Inl (Undefined_behaviour u)"
proof (induction args c rule: parse_args.induct)
  case (2 arg rest c)
  have "f v c \<noteq> Inl (Undefined_behaviour u)" if "option_setter arg = Some f" for f v c
    using that by (auto simp: option_setter_def set_port_def set_backlog_def set_max_conn_def set_timeout_def
        stoi_def stoll_def stoull_def Let_def split: if_splits option.splits sum.splits)
  then show ?case using 2 by (auto split: option.split list.split sum.split)
qed simp

text \<open>No option changes the sizes of the server's own memory pool.\<close>

definition same_pool :: "Config \<Rightarrow> Config \<Rightarrow> bool" where
  "same_pool c c' \<longleftrightarrow> cfg_pool_block_size c' = cfg_pool_block_size c \<and> cfg_pool_block_count c' = cfg_pool_block_count c"

lemma setters_pool:
  "set_port v c = Inr c' \<Longrightarrow> same_pool c c'" "set_backlog v c = Inr c' \<Longrightarrow> same_pool c c'"
  "set_max_conn v c = Inr c' \<Longrightarrow> same_pool c c'" "set_timeout v c = Inr c' \<Longrightarrow> same_pool c c'"
  by (auto simp: same_pool_def set_port_def set_backlog_def set_max_conn_def set_timeout_def split: sum.splits)

lemma option_setter_pool:
  assumes "option_setter arg = Some f" "f v c = Inr c'"
  shows "same_pool c c'"
proof -
  have "f \<in> {set_port, \<lambda>v c. Inr (c\<lparr>cfg_ip := v\<rparr>), set_backlog, set_max_conn, set_timeout}"
    using assms(1) unfolding option_setter_def by (auto simp only: option.inject option.distinct insert_iff split: if_splits)
  with assms(2) show ?thesis using setters_pool by (auto simp: same_pool_def)
qed

lemma parse_args_pool: "parse_args args c = Inr (Some c') \<Longrightarrow> same_pool c c'"
proof (induction args c rule: parse_args.induct)
  case (1 c)
  then show ?case by (simp add: same_pool_def)
next
  case (2 arg rest c)
  have run: "\<not> (arg = ''-h'' \<or> arg = ''--help'')" using "2.prems" by (auto split: if_splits)
  show ?case
  proof (cases "option_setter arg")
    case None
    then have "parse_args rest (c\<lparr>cfg_log_level := DEBUG\<rparr>) = Inr (Some c') \<or> parse_args rest c = Inr (Some c')"
      using "2.prems" run by (auto split: if_splits)
    then show ?thesis using "2.IH"(1,2) [OF run None] "2.prems" run None
      by (auto simp: same_pool_def split: if_splits)
  next
    case (Some f)
    show ?thesis
    proof (cases rest)
      case Nil
      then show ?thesis using "2.prems" run Some by (simp add: same_pool_def)
    next
      case (Cons v rest')
      obtain c1 where c1: "f v c = Inr c1" "parse_args rest' c1 = Inr (Some c')"
        using "2.prems" run Some Cons by (auto split: sum.splits)
      have "same_pool c1 c'" by (rule "2.IH"(4) [OF run Some Cons c1])
      with option_setter_pool [OF Some c1(1)] show ?thesis by (simp add: same_pool_def)
    qed
  qed
qed

text \<open>The run with a parsed configuration.\<close>

lemma fresh_server:
  "fresh_world w \<Longrightarrow> init_inv (\<lambda>s. no_parts s \<and> listen_socket s = None \<and> \<not> srv_running s) (Server_default, w)"
  by (simp add: init_inv_def no_parts_def Server_default_def)

lemma server_runs:
  fixes w :: "('k, 'z) world_scheme"
  assumes "recv_ok os" "send_ok os" "epoll_wait_ok os" "iter_ok os" "os_cpus os < 2 ^ 63" "fresh_world w"
    "\<forall>f \<in> set others. \<forall>x. (other_step os n)\<^sup>*\<^sup>* x (f x)" "new_array_ok (os_new_array os)" "sizes_fit cfg"
    "andthen (Server_Init os t cfg) (andthen (Server_Start os n others) (andthen Server_Wait (ret out))) (Server_default, w) = (res, (s', w'))"
  shows "res \<noteq> Inl (Undefined_behaviour u) \<and> cp_inv w' \<and> length (get_pool w') \<le> cfg_max_connections cfg \<and>
    (\<forall>v p i. res = Inr v \<longrightarrow> io_thread_pool s' = Some p \<longrightarrow> i < length (loops p) \<longrightarrow>
       fst (loop_round os n (loops p ! i, w')) \<noteq> Inl (Undefined_behaviour u))"
proof -
  let ?m = "cfg_max_connections cfg"
  have start: "triple (srv_inv True 0 ?m {}) (Server_Start os n others) (\<lambda>_. srv_inv False 0 ?m {}) (bounded ?m)"
    by (rule triple_conseq [OF Server_Start_safe [OF assms(1-4,7)]]) (auto intro: srv_bounded)
  have wait: "triple (srv_inv False 0 ?m {} :: Server \<times> ('k, 'z) world_scheme \<Rightarrow> bool) (andthen Server_Wait (ret out))
      (\<lambda>_. srv_inv False 0 ?m {}) (bounded ?m)"
    by (simp add: triple_def prog_simps Server_Wait_def)
  note t = triple_andthen [OF Server_Init_safe [OF assms(5,4,8,9), of t] triple_andthen [OF start wait]]
  show ?thesis
  proof (cases res)
    case (Inl e)
    then show ?thesis using triple_InlD [OF t fresh_server [OF assms(6)]] assms(10) by (auto simp: bounded_def)
  next
    case (Inr v)
    then have J: "srv_inv False 0 ?m {} (s', w')" using triple_InrD [OF t fresh_server [OF assms(6)]] assms(10) by simp
    then have "fst (loop_round os n (loops p ! i, w')) \<noteq> Inl (Undefined_behaviour u)"
      if "io_thread_pool s' = Some p" "i < length (loops p)" for p i
      using that safe_at [OF safe_loop_round [OF assms(1-3)], of ?m "{}" "(loops p ! i, w')"]
      by (auto simp: srv_inv_def srv_ok_def list_all_length)
    with J srv_bounded [OF J] Inr show ?thesis by (auto simp: bounded_def)
  qed
qed

section \<open>Properties\<close>

text \<open>
  C2: The whole program, for every command line whose connection limit leaves the size of the
  connection pool's memory within \<open>size_t\<close> (at most $2^{52} - 1$ connections): \<open>main\<close> parses
  the arguments, calls \<open>Init\<close> and then \<open>Start\<close>, which is the main reactor. Whatever the kernel
  and the clients do, whether or not there is memory for a growing buffer, and whatever the
  event loops of the other threads, the heartbeat thread and signals do between two rounds of
  the main loop, the run has no undefined behaviour: no connection is used through a dangling
  reference, no member through a null pointer, no array or vector is indexed outside of its
  bounds, no \<open>recv\<close>, \<open>send\<close>, \<open>memcpy\<close> or \<open>memmove\<close> leaves a buffer, and no block of a memory
  pool lies outside of its array. When the run ends, also by an exception, the connection pool
  is consistent and within the limit of the command line, and the next round of each event
  loop has defined behaviour as well.
\<close>

theorem server_run_safe:
  fixes w :: "('k, 'z) world_scheme"
  assumes "recv_ok os" "send_ok os" "epoll_wait_ok os" "iter_ok os" "os_cpus os < 2 ^ 63" "fresh_world w"
    "\<forall>f \<in> set others. \<forall>x. (other_step os n)\<^sup>*\<^sup>* x (f x)" "new_array_ok (os_new_array os)"
    "\<forall>cfg. parse_args (tl argv) Config_default = Inr (Some cfg) \<longrightarrow> 4096 * cfg_max_connections cfg < 2 ^ 64"
    "server_main os t n others argv (Server_default, w) = (res, (s', w'))"
  shows "res \<noteq> Inl (Undefined_behaviour u) \<and> cp_inv w' \<and>
    (\<forall>cfg. parse_args (tl argv) Config_default = Inr (Some cfg) \<longrightarrow> length (get_pool w') \<le> cfg_max_connections cfg) \<and>
    (\<forall>v p i. res = Inr v \<longrightarrow> io_thread_pool s' = Some p \<longrightarrow> i < length (loops p) \<longrightarrow>
       fst (loop_round os n (loops p ! i, w')) \<noteq> Inl (Undefined_behaviour u))"
proof -
  note I = fresh_server [OF assms(6)]
  consider (error) e where "parse_args (tl argv) Config_default = Inl e"
    | (usage) "parse_args (tl argv) Config_default = Inr None"
    | (run) cfg where "parse_args (tl argv) Config_default = Inr (Some cfg)"
    by (metis not_Some_eq sum.exhaust)
  then show ?thesis
  proof cases
    case (error e)
    then show ?thesis
      using assms(10) fresh_bounded [OF I] parse_args_defined [of "tl argv" Config_default u]
      by (auto simp: server_main_def prog_simps bounded_def)
  next
    case usage
    then show ?thesis
      using assms(10) fresh_bounded [OF I] by (auto simp: server_main_def prog_simps bounded_def Server_default_def)
  next
    case (run cfg)
    have main: "andthen (Server_Init os t cfg) (andthen (Server_Start os n others) (andthen Server_Wait (ret ([], 0)))) (Server_default, w) = (res, (s', w'))"
      using assms(10) run by (simp add: server_main_def)
    have "sizes_fit cfg"
      using assms(9) run parse_args_pool [OF run] by (simp add: sizes_fit_def same_pool_def Config_default_def)
    from server_runs [OF assms(1-8) this main, of u] run show ?thesis by auto
  qed
qed

lemma server_run_safe_witness:
  "\<exists>res s' w'. server_main zero_os 1 2 [\<lambda>(s, w). snd (SignalHandler zero_os 15 (s, w))] [''server'', ''-v'']
       (Server_default, demo_world []) = (res, (s', w')) \<and>
     res \<noteq> Inl (Undefined_behaviour ''loop index'') \<and> length (get_pool w') \<le> 100000"
proof -
  have os: "recv_ok zero_os" "send_ok zero_os" "epoll_wait_ok zero_os" "iter_ok zero_os" "os_cpus zero_os < 2 ^ 63"
    using script_call_ok(4)
    by (simp_all add: recv_ok_def send_ok_def epoll_wait_ok_def iter_ok_def zero_os_def script_os_def reply_of_def Let_def)
  have others: "\<forall>f \<in> set [\<lambda>(s, w). snd (SignalHandler zero_os 15 (s, w))]. \<forall>x :: Server \<times> reply list world. (other_step zero_os 2)\<^sup>*\<^sup>* x (f x)"
    by (auto intro: other_step.signalled)
  have "fresh_world (demo_world [])" by (simp add: fresh_world_def demo_world_def)
  note run = server_run_safe [OF os this others]
  have arr: "new_array_ok (os_new_array zero_os)"
    by (simp add: new_array_ok_def zero_os_def script_os_def)
  obtain res s' w' where r: "server_main zero_os 1 2 [\<lambda>(s, w). snd (SignalHandler zero_os 15 (s, w))] [''server'', ''-v'']
       (Server_default, demo_world []) = (res, (s', w'))"
    by (metis surj_pair)
  have "parse_args (tl [''server'', ''-v'']) Config_default = Inr (Some (Config_default\<lparr>cfg_log_level := DEBUG\<rparr>))"
    by (simp add: option_setter_def)
  with run [OF arr _ r, of "''loop index''"] r show ?thesis by (auto simp: Config_default_def)
qed

end
