(* ===== verification/Server_Termination.thy ===== *)
theory Server_Termination
  imports Net_Server
begin

text \<open>
  The loop of \<open>HandleAccept\<close> ends: it accepts until the kernel has no more pending
  connection. The proof follows the kernel state through everything that the body of the loop
  does with a client.
\<close>

section \<open>Pending connections\<close>

text \<open>
  \<open>pend\<close> counts the connections that can still be accepted: a successful \<open>accept\<close> takes
  one, and no call of the server adds one.
\<close>

definition accepts_drain :: "'k os \<Rightarrow> ('k \<Rightarrow> nat) \<Rightarrow> bool" where
  "accepts_drain os pend \<longleftrightarrow> (\<forall>k c. pend (snd (os_call os k c)) \<le> pend k) \<and>
     (\<forall>k fd. rp_ret (fst (os_call os k (Sys_accept fd))) \<noteq> - 1 \<longrightarrow> pend (snd (os_call os k (Sys_accept fd))) < pend k)"

definition pending :: "('k \<Rightarrow> nat) \<Rightarrow> nat \<Rightarrow> ('k, 'z) sysw_scheme \<Rightarrow> bool" where
  "pending pend N w \<longleftrightarrow> pend (kst w) \<le> N"

lemma pending_steps:
  assumes "accepts_drain os pend"
  shows "keeps (pending pend N) (syscall os c)" "keeps (pending pend N) (steady_now os)"
  using assms by (auto simp: keeps_def pending_def accepts_drain_def prog_simps intro: order_trans)

lemma pending_LOG: "keeps (pending pend N) (LOG lv msg)"
  by (simp add: keeps_def pending_def prog_simps)

lemma pending_modify: "(\<And>w. kst (f w) = kst w) \<Longrightarrow> keeps (pending pend N) (modify f)"
  by (simp add: keeps_def pending_def prog_simps)

text \<open>A program on an object and the rest of the state.\<close>

lemma pending_on_snd: "keeps I p \<Longrightarrow> keeps (\<lambda>(ob, w). I w) (on_snd p)"
  by (auto simp: keeps_def on_snd_def split: prod.splits)

lemma pending_object:
  assumes "\<And>ob w. kst (snd (f (ob, w))) = kst w"
  shows "keeps (\<lambda>(ob, w). pending pend N w) (modify f)"
  unfolding keeps_def case_prod_unfold pending_def modify_eval using assms by (metis prod.collapse snd_conv)

lemma pending_on_conn:
  assumes "keeps (\<lambda>(c, w). pending pend N w) p"
  shows "keeps (pending pend N) (on_conn a p)"
proof (rule keepsI)
  fix w :: "('a, 'b) world_scheme" assume I: "pending pend N w"
  show "pending pend N (snd (on_conn a p w))"
  proof (cases "heap w a")
    case (Some c)
    obtain r c' w' where "p (c, w) = (r, (c', w'))" by (metis surj_pair)
    with keepsD [OF assms, of "(c, w)"] I Some show ?thesis by (simp add: on_conn_eval pending_def)
  qed (use I in \<open>simp add: on_conn_def\<close>)
qed

section \<open>The body of the loop\<close>

lemmas pending_intros = keeps_intros pending_LOG pending_steps pending_modify pending_object pending_on_snd pending_on_conn

lemma pending_conn:
  assumes "accepts_drain os pend"
  shows "keeps (\<lambda>(c, w). pending pend N w) (Connection_Close os)"
  unfolding Connection_Close_def set_closed_def
  by (rule pending_intros assms | (simp add: case_prod_unfold; fail))+

lemma pending_SetState: "keeps (\<lambda>(c, w). pending pend N w) (Connection_SetState st)"
  by (auto simp: keeps_def SetState_eval pending_def)

lemma pending_delete: "accepts_drain os pend \<Longrightarrow> pending pend N w \<Longrightarrow> pending pend N (snd (Socket_delete os (k, w)))"
  unfolding Socket_delete_def Socket_Close_def
  by (auto simp: prog_simps pending_def accepts_drain_def intro: order_trans)

lemma pending_close_socket:
  assumes "accepts_drain os pend"
  shows "keeps (pending pend N) (\<lambda>w. case Socket_Close os (client, w) of (r, (k, w')) \<Rightarrow>
     (case r of Inl e \<Rightarrow> (Inl e, w') | Inr _ \<Rightarrow> (Inr k, w')))"
proof (rule keepsI)
  fix w :: "('a, 'b) sysw_scheme" assume I: "pending pend N w"
  obtain w' where c: "Socket_Close os (client, w) = (Inr (), (client\<lparr>sock_fd := - 1\<rparr>, w'))" by (rule Socket_Close_spec)
  with pending_delete [OF assms I, of client]
  show "pending pend N (snd (case Socket_Close os (client, w) of (r, (k, w')) \<Rightarrow>
     (case r of Inl e \<Rightarrow> (Inl e, w') | Inr _ \<Rightarrow> (Inr k, w'))))"
    by (simp add: Socket_delete_def)
qed

lemma pending_deref: "(\<And>c. keeps (pending pend N) (f c)) \<Longrightarrow> keeps (pending pend N) (bnd (deref a) f)"
  by (rule keeps_bnd) (auto simp: keeps_def deref_def split: option.split)

lemma pending_set_pool: "keeps (pending pend N) (set_pool f)"
  by (simp add: keeps_def pending_def prog_simps)

lemma pending_pool:
  assumes "accepts_drain os pend"
  shows "keeps (pending pend N) (make_conn os fd ip port)" "keeps (pending pend N) (ConnectionPool_AddConnection a)"
    "keeps (pending pend N) (ConnectionPool_RemoveConnection os fd)" "keeps (pending pend N) (drop_conn os a)"
  unfolding make_conn_def Connection_new_def ConnectionPool_AddConnection_def ConnectionPool_RemoveConnection_def
    drop_conn_def Connection_delete_def Let_def
  by (rule pending_deref pending_set_pool | rule pending_intros pending_conn assms | (simp; fail))+

lemma pending_socket:
  assumes "accepts_drain os pend"
  shows "keeps (pending pend N) (prepare_client os client)" "keeps (pending pend N) (accept_setup os fd addr)"
  unfolding prepare_client_def accept_setup_def Socket_SetNonBlocking_def Socket_SetTcpNoDelay_def
    Socket_GetPeerIp_def Socket_GetPeerPort_def Socket_CheckError_def Let_def
  by (rule pending_intros assms pending_delete [OF assms] | assumption)+

lemma pending_io: "keeps (\<lambda>(s, w). pending pend N w) (on_io GetNextEventLoop)"
  by (auto simp: keeps_def on_io_def GetNextEventLoop_def prog_simps split: option.splits prod.splits if_splits)

lemma pending_sub_loop:
  assumes "accepts_drain os pend"
  shows "keeps (\<lambda>(s, w). pending pend N w) (sub_loop_AddFd os i fd ev)"
  unfolding sub_loop_AddFd_def EventLoop_AddFd_def Epoll_AddFd_def Epoll_CheckError_def Let_def
  by (rule pending_intros assms)+

lemma pending_register:
  assumes "accepts_drain os pend"
  shows "keeps (\<lambda>(s, w). pending pend N w) (register_client os client a)"
  unfolding register_client_def
  by (rule pending_io pending_sub_loop pending_intros pending_pool pending_close_socket assms)+

lemma pending_destroy:
  assumes "accepts_drain os pend" "case x of (s, w) \<Rightarrow> pending pend N w"
  shows "case (case x of (s, w) \<Rightarrow> (s, snd (Socket_delete os (k, w)))) of (s, w) \<Rightarrow> pending pend N w"
  using assms pending_delete by (cases x) auto

lemma pending_modify_destroy:
  assumes "accepts_drain os pend"
  shows "keeps (\<lambda>(s, w). pending pend N w) (modify (\<lambda>(s, w). (s, snd (Socket_delete os (k, w)))))"
  unfolding keeps_def modify_eval snd_conv by (intro allI impI pending_destroy [OF assms])

lemma pending_client:
  assumes "accepts_drain os pend"
  shows "keeps (\<lambda>(s, w). pending pend N w) (accept_client os client)"
proof -
  have admit: "keeps (\<lambda>(s, w). pending pend N w) (admit_client os client ip port)" for ip port
    unfolding admit_client_def
    by (rule pending_intros pending_SetState pending_register pending_pool assms)+
  show ?thesis
    unfolding accept_client_def
    by (rule keeps_bnd keeps_on_throw pending_on_snd pending_socket(1) pending_destroy pending_modify_destroy assms
        | assumption | (clarsimp split: prod.split simp only: prod.case, rule admit))+
qed

section \<open>No part of the body runs forever\<close>

lemma ends_socket [keeps_intros]:
  "ends (Socket_CheckError os r what)" "ends (Socket_SetNonBlocking os k)" "ends (Socket_SetTcpNoDelay os k)"
  "ends (Socket_GetPeerIp os k)" "ends (Socket_GetPeerPort os k)"
  unfolding Socket_SetNonBlocking_def Socket_SetTcpNoDelay_def Socket_GetPeerIp_def Socket_GetPeerPort_def
    Socket_CheckError_def Let_def
  by (intro keeps_intros exn.distinct)+

lemma ends_Accept [keeps_intros]: "ends (Socket_Accept os k)"
  unfolding Socket_Accept_def accept_setup_def Let_def by (intro keeps_intros)

lemma ends_conn_pool [keeps_intros]:
  "ends (make_conn os fd ip port)" "ends (ConnectionPool_AddConnection a)" "ends (drop_conn os a)"
  unfolding make_conn_def Connection_new_def ConnectionPool_AddConnection_def drop_conn_def Connection_delete_def Let_def
  by (intro keeps_intros)+

lemma ends_SetState [keeps_intros]: "ends (Connection_SetState st)"
  by (simp add: ends_def SetState_eval split_paired_all)

lemma ends_io [keeps_intros]: "ends (on_io GetNextEventLoop)"
  by (auto simp: ends_def on_io_def GetNextEventLoop_def prog_simps split: option.splits prod.splits if_splits)

lemma ends_sub_loop [keeps_intros]: "ends (sub_loop_AddFd os i fd ev)"
  unfolding sub_loop_AddFd_def EventLoop_AddFd_def Epoll_AddFd_def Epoll_CheckError_def Let_def
  by (intro keeps_intros exn.distinct)

lemma ends_close_socket [keeps_intros]:
  fixes os :: "'a os"
  shows "ends (\<lambda>w :: ('a, 'b) sysw_scheme. case Socket_Close os (client, w) of (r, (k, w')) \<Rightarrow> (case r of Inl e \<Rightarrow> (Inl e, w') | Inr _ \<Rightarrow> (Inr k, w')))"
proof -
  have "fst (Socket_Close os (client, w)) = Inr ()" for w :: "('a, 'b) sysw_scheme" by (rule Socket_Close_spec [of os client w]) simp
  then show ?thesis by (auto simp: ends_def split: prod.split sum.split) (metis fst_conv sum.distinct(1))
qed

lemma ends_client [keeps_intros]: "ends (accept_client os client)"
proof -
  have "ends (register_client os client a)" for a
    unfolding register_client_def by (intro keeps_intros)
  then show ?thesis
    unfolding accept_client_def prepare_client_def admit_client_def case_prod_unfold by (intro keeps_intros)
qed

text \<open>A valid socket takes a pending connection.\<close>

lemma Accept_takes_one:
  assumes "accepts_drain os pend" "Socket_Accept os k w = (Inr client, w')" "Socket_IsValid client"
  shows "pend (kst w') < pend (kst w)"
proof -
  let ?r = "fst (os_call os (kst w) (Sys_accept (sock_fd k)))"
  let ?w1 = "snd (syscall os (Sys_accept (sock_fd k)) w)"
  have r: "rp_ret ?r \<noteq> - 1"
    using assms(2,3) by (auto simp: Socket_Accept_def Socket_CheckError_def Socket_IsValid_def Socket_of_def prog_simps Let_def split: if_splits)
  have "accept_setup os (rp_ret ?r) (rp_addr ?r) ?w1 = (Inr client, w')"
    using assms(2) r by (simp add: Socket_Accept_def bnd_eval syscall_eval)
  from keepsD [OF pending_socket(2) [OF assms(1)] _ this, of "pend (kst ?w1)"]
  have "pend (kst w') \<le> pend (kst ?w1)" by (simp add: pending_def)
  also have "\<dots> < pend (kst w)" using assms(1) r by (simp add: accepts_drain_def syscall_eval)
  finally show ?thesis .
qed

lemma HandleAccept_ends:
  assumes "accepts_drain os pend"
  shows "pend (kst w) < n \<Longrightarrow> fst (HandleAccept os n (s, w)) \<noteq> Inl Diverges"
proof (induction n arbitrary: s w)
  case (Suc n)
  have ends_round: "ends (accept_round os)"
    unfolding accept_round_def the_listen_def by (intro keeps_intros) (auto simp: ends_def split: option.split)
  obtain r s1 w1 where R: "accept_round os (s, w) = (r, (s1, w1))" by (metis surj_pair)
  show ?case
  proof (cases "r = Inr True")
    case False
    then show ?thesis using R endsD [OF ends_round, of "(s, w)"] by (cases r) (auto simp: prog_simps)
  next
    case True
    obtain k where k: "listen_socket s = Some k"
      using R True by (cases "listen_socket s") (simp_all add: accept_round_def the_listen_def bnd_eval)
    obtain rc w2 where A: "Socket_Accept os k w = (rc, w2)" by force
    obtain client where client: "rc = Inr client" "Socket_IsValid client"
      using R True k A by (cases rc) (auto simp: accept_round_def the_listen_def prog_simps split: if_splits)
    obtain r2 where C: "accept_client os client (s, w2) = (r2, (s1, w1))"
      using R True k A client by (auto simp: accept_round_def the_listen_def prog_simps split: prod.splits sum.splits)
    from keepsD [OF pending_client [OF assms, of "pend (kst w2)"] _ C] have "pend (kst w1) \<le> pend (kst w2)"
      by (simp add: pending_def)
    with Accept_takes_one [OF assms A [unfolded client(1)] client(2)] Suc.prems have "pend (kst w1) < n" by simp
    from Suc.IH [OF this] R True show ?thesis by (simp add: prog_simps)
  qed
qed simp

section \<open>Properties\<close>

text \<open>
  C13: \<open>HandleAccept\<close> returns: with more rounds than connections that are still pending, its
  loop is not cut short, whatever happens to the clients it accepts. So the loop ends as soon
  as the kernel has no more pending connection.
\<close>

theorem HandleAccept_terminates:
  assumes "accepts_drain os pend"
  shows "fst (HandleAccept os (Suc (pend (kst w))) (s, w)) \<noteq> Inl Diverges"
  using HandleAccept_ends [OF assms lessI] .

lemma HandleAccept_terminates_witness:
  "accepts_drain script_os length \<and> fst (HandleAccept script_os 3 (demo_server, demo_pooled [reply_of 9 0 [], reply_of 0 0 []])) \<noteq> Inl Diverges"
proof -
  have "length (snd (script_call k c)) \<le> length k" for k c by (cases k) simp_all
  moreover have "rp_ret (fst (script_call k c)) \<noteq> - 1 \<Longrightarrow> length (snd (script_call k c)) < length k" for k c
    by (cases k) (simp_all add: reply_of_def)
  ultimately have d: "accepts_drain script_os length" by (simp add: accepts_drain_def)
  show ?thesis
    using HandleAccept_terminates [OF d, of "demo_pooled [reply_of 9 0 [], reply_of 0 0 []]" demo_server] d
    by (simp add: demo_pooled_def demo_world_def numeral_eq_Suc)
qed

end
