(* ===== verification/Spec2Isabelle.thy ===== *)
theory Spec2Isabelle
  imports Util_MemoryPool Util_ThreadPool Server_Safety Server_Termination
begin

text \<open>
  A verification of the TCP echo server under \<open>src/\<close> (C++, Linux).

  \<^bold>\<open>The program.\<close> \<open>main\<close> parses the command line and runs the singleton \<open>net::Server\<close>. Its
  \<open>Init\<close> creates the listening \<open>Socket\<close>, the event loop of the main reactor, a \<open>MemoryPool\<close>,
  the \<open>IOThreadPool\<close> with one \<open>EventLoop\<close> per I/O thread, and the singleton
  \<open>conn::ConnectionPool\<close> with its heartbeat thread. \<open>Start\<close> runs the main reactor: it waits
  with \<open>Epoll\<close>, accepts connections in \<open>HandleAccept\<close>, puts each as a \<open>Connection\<close> into the
  pool and registers its descriptor with the next event loop, edge triggered and one shot.
  The event loops read, echo and write in \<open>HandleRead\<close> and \<open>HandleWrite\<close>. The heartbeat
  thread removes connections without traffic. A signal requests a stop through an
  \<open>eventfd\<close>. Every part writes to the asynchronous \<open>util::Logger\<close>. The \<open>ThreadPool\<close> is a
  component of its own that the server does not use.

  \<^bold>\<open>The theories.\<close> Each theory models one pair of source files, in the order of the code:
  first records and datatypes, then one definition per function, then lemmas, then the
  properties.

  \<^item> \<open>Prelude\<close>: \<open>size_t\<close> with its wrap-around, byte buffers, programs that pass a state and
    may throw (\<open>prog\<close>), and three ways to reason about them: \<open>keeps\<close> (an invariant),
    \<open>ends\<close> (no loop exceeds its number of rounds) and \<open>triple\<close>/\<open>safe\<close> (no undefined
    behaviour under an invariant). The locale \<open>byte_fifo\<close> is the contract of a byte queue.
  \<^item> \<open>Sys\<close>: the kernel. It is a parameter, any function from a kernel state and a system
    call to a reply; the contracts \<open>recv_ok\<close>, \<open>send_ok\<close>, \<open>epoll_wait_ok\<close>, \<open>iter_ok\<close> and
    \<open>clock_monotone\<close> say what the program relies on, and \<open>script_os\<close> is a kernel that keeps the
    first four. \<open>recording os\<close> is the kernel \<open>os\<close> that also records what it takes from \<open>send\<close>.
  \<^item> \<open>Util_MemoryPool\<close>: \<open>util/memory_pool\<close>. The pointers inside the free blocks are a map
    from addresses that clients can overwrite in blocks they hold. The free list is a
    duplicate-free chain of blocks with exact counters in every reachable state; a pool whose
    size does not fit in \<open>size_t\<close> is initialised outside of its array.
  \<^item> \<open>Util_ThreadPool\<close>: \<open>util/thread_pool\<close> as a step relation over workers, the queue and
    the condition variable. No task is lost, reordered or run twice; the pool drains at
    shutdown, cannot get stuck and makes only finitely many internal steps.
  \<^item> \<open>Util_Log\<close>: \<open>util/log\<close>. Both buffers stay within their capacity, a round of the log
    thread delivers what was accepted, and three defects are proved: \<open>Flush\<close> and
    \<open>Fatal\<close> lose messages (\<open>Fatal\<close> when the log thread is in its wait at that moment), and rotation by size reopens the same file.
  \<^item> \<open>Net_Socket\<close>, \<open>Net_Epoll\<close>: \<open>net/socket\<close>, \<open>net/epoll\<close>, all operations with their
    exceptions; who owns the descriptor that \<open>accept\<close> returns.
  \<^item> \<open>Conn_Connection\<close>: \<open>conn/connection\<close>. Buffers byte by byte, with growth, the size limit
    and lack of memory; each copy is checked to stay inside its vector.
    Both buffers are interpretations of \<open>byte_fifo\<close>; all branches of \<open>Recv\<close> and \<open>Send\<close>;
    the invariant of the fill marks, of accesses inside the buffers and of the ownership of the
    descriptor; the stream of bytes that the kernel takes.
  \<^item> \<open>Conn_Pool\<close>: \<open>conn/connection_pool\<close> over a heap of connections. The invariant of the
    pool in every reachable state, its refinement of a bounded finite map (locale
    \<open>fd_table\<close>), heartbeat rounds and shutdown.
  \<^item> \<open>Net_EventLoop\<close>: \<open>net/event_loop\<close>. Exact effects of the handlers, the end of the
    receive loop, the dispatch of events, and two defects (a descriptor that is never
    closed, a write that is never resumed).
  \<^item> \<open>Net_IOThreadPool\<close>: \<open>net/io_thread_pool\<close>, with the fairness of the round robin.
  \<^item> \<open>Net_Server\<close>: \<open>net/server\<close>, all of \<open>Init\<close>, \<open>Start\<close>, \<open>Stop\<close>, the destructor with its members,
    the signal handler, the main loop and \<open>HandleAccept\<close>; the registration of a client, and two defects (a double
    close, a stop that skips the shutdown).
  \<^item> \<open>Main_Args\<close>: \<open>main.cpp\<close>, with the number parsing of the C++ library.
  \<^item> \<open>Server_Termination\<close>: the loop of \<open>HandleAccept\<close> ends.
  \<^item> \<open>Server_Safety\<close>: the composition. From \<open>main\<close> to the end of the main reactor there
    is no undefined behaviour, for every kernel that keeps the contracts, every interleaving of
    the other threads between two rounds of the main loop, and every command line whose
    connection limit is below $2^{52}$. Above it the size of the connection pool's memory wraps,
    and \<open>pool_size_overflow\<close> shows that the constructor then leaves its array.

  \<^bold>\<open>State.\<close> Objects are records; a method is a function of its object and the state \<open>sysw\<close>
  (kernel state, \<open>errno\<close>, and as history the system calls and the log messages), or
  \<open>world\<close>, which adds the heap of connections and the pool. A \<open>shared_ptr\<close> to a connection is
  an address of the heap, a pointer to an event loop an index of the vector. Exceptions are
  values of the type \<open>exn\<close>; \<open>Undefined_behaviour\<close> marks a null or dangling pointer, an index
  outside of an array, a \<open>recv\<close>, \<open>send\<close>, \<open>epoll_wait\<close>, \<open>memcpy\<close> or \<open>memmove\<close> beyond its vector
  (\<open>guard\<close> stands before each of them), and a block of a memory pool outside of its array. The
  buffers of the logger have no such mark; that their length is their capacity is part of
  their invariant.

  \<^bold>\<open>Loops.\<close> The loops that end only when the kernel has no more input (\<open>recv_all\<close> in
  \<open>HandleRead\<close>, and \<open>HandleAccept\<close>) take a number of rounds and throw \<open>Diverges\<close> when it is
  used up. \<open>HandleRead_terminates\<close> and \<open>HandleAccept_terminates\<close> show that one round more
  than the deliveries, or the connections, that the kernel still has is enough; all other
  statements on them hold for any number. The loops of the threads (\<open>loop_while\<close>,
  \<open>main_while\<close>, \<open>HeartbeatCheckLoop\<close>) run over a list that has, for each round, what the
  other threads do before it, so that every finite run is covered. All other recursion is
  structural.

  \<^bold>\<open>Not modelled.\<close> The handlers of different threads are atomic steps: data races and the
  weak memory model are out of scope, and a mutex is the atomicity of the section that it
  guards. \<open>errno\<close> is read right after the call that sets it, and logging is taken to leave
  it alone. The logger is connected to the other parts by the list of its messages only.
  An allocation can fail where the memory grows with the input or the configuration: the
  arrays of the memory pools (\<open>os_new_array\<close>) and the buffers of a connection (\<open>os_grant\<close>). The
  failure of the other allocations (objects, messages, nodes of the tables, the reserved first
  4096 bytes of a buffer, the arrays of events), the construction and destruction order of the
  singletons, the contents of freshly allocated memory and the texts of \<open>strerror\<close> are left out
  or are parameters. Build files, documents and assets are no part of the program.
\<close>

end
